theory Spec2Isabelle
  imports Main "HOL-Library.Word"
begin

unbundle bit_operations_syntax

section \<open>Machine types and errors\<close>

type_synonym byte = "8 word"
type_synonym uint16 = "16 word"
type_synonym uint32 = "32 word"
type_synonym uint64 = "64 word"

text \<open>
  Every way a function of the server can stop early is a value of \<open>error\<close>:
  \<open>Panic\<close> is a Go run-time panic (index or slice bound out of range),
  \<open>EOF\<close> the error of a read on a closed connection, \<open>WriteError\<close> the
  error of a write the connection does not take, and the remaining constructors are
  the \<open>fmt.Errorf\<close> / \<open>errors.New\<close> values of \<open>server.go\<close> and
  \<open>handlers.go\<close>, carrying the numbers they print.
\<close>

datatype error =
    Panic
  | EOF
  | WriteError
  | ErrMagic byte
  | ErrOpcode byte
  | ErrDataType byte
  | ErrBodyLength uint32 uint16 byte
  | ErrGetExtraLength byte
  | ErrGetKeyLength
  | ErrGetValue uint32 uint16 byte
  | ErrTooLarge uint32
  | ErrSetShape uint16 byte uint32

text \<open>Sequencing of fallible steps: the first error is returned, as Go's
  \<open>if err != nil { return err }\<close> does.\<close>

definition andThen :: "error + 'a \<Rightarrow> ('a \<Rightarrow> error + 'b) \<Rightarrow> error + 'b" where
  "andThen m f = (case m of Inl e \<Rightarrow> Inl e | Inr x \<Rightarrow> f x)"

section \<open>Byte codec (utils.go)\<close>

text \<open>\<open>buf[0]\<close> and \<open>buf[1]\<close> panic on a slice that is too short.\<close>

definition GetUint16 :: "byte list \<Rightarrow> error + uint16" where
  "GetUint16 buf =
     (if length buf < 2 then Inl Panic
      else Inr (push_bit 8 (ucast (buf ! 0) :: uint16) OR (ucast (buf ! 1) :: uint16)))"

text \<open>\<open>buf[2:]\<close> is in range whenever \<open>GetUint16(buf)\<close> has returned.\<close>

definition GetUint32 :: "byte list \<Rightarrow> error + uint32" where
  "GetUint32 buf =
     andThen (GetUint16 buf) (\<lambda>hi.
     andThen (GetUint16 (drop 2 buf)) (\<lambda>lo.
       Inr (push_bit 16 (ucast hi :: uint32) OR (ucast lo :: uint32))))"

definition GetUint64 :: "byte list \<Rightarrow> error + uint64" where
  "GetUint64 buf =
     andThen (GetUint32 buf) (\<lambda>hi.
     andThen (GetUint32 (drop 4 buf)) (\<lambda>lo.
       Inr (push_bit 32 (ucast hi :: uint64) OR (ucast lo :: uint64))))"

definition GetNthByteFromUint16 :: "uint16 \<Rightarrow> nat \<Rightarrow> byte" where
  "GetNthByteFromUint16 v pos =
     (if pos = 0 then ucast (drop_bit 8 v) else ucast (v AND 0x00ff))"

definition GetNthByteFromUint32 :: "uint32 \<Rightarrow> nat \<Rightarrow> byte" where
  "GetNthByteFromUint32 v pos =
     (let l = (ucast (drop_bit 16 v) :: uint16);
          r = (ucast (v AND 0x0000ffff) :: uint16)
      in if pos = 0 then GetNthByteFromUint16 l 0
         else if pos = 1 then GetNthByteFromUint16 l 1
         else if pos = 2 then GetNthByteFromUint16 r 0
         else GetNthByteFromUint16 r 1)"

section \<open>Headers and constants (server.go)\<close>

text \<open>The fields of the three Go structs share names (\<open>Magic\<close>, \<open>CAS\<close>, ...);
  the request header's fields carry the prefix \<open>req\<close> and the response header's
  the prefix \<open>resp\<close>.\<close>

record RequestHeader =
  reqMagic :: byte
  reqOpcode :: byte
  reqKeyLength :: uint16
  reqExtraLength :: byte
  reqDataType :: byte
  reqVBucketID :: uint16
  reqTotalBodyLength :: uint32
  reqOpaque :: uint32
  reqCAS :: uint64

record ResponseHeader =
  respMagic :: byte
  respOpcode :: byte
  respKeyLength :: uint16
  respExtraLength :: byte
  respDataType :: byte
  respStatus :: uint16
  respTotalBodyLength :: uint32
  respOpaque :: uint32
  respCAS :: uint64

text \<open>Go's zero value \<open>ResponseHeader{}\<close>.\<close>

definition ResponseHeader0 :: ResponseHeader where
  "ResponseHeader0 =
     \<lparr>respMagic = 0, respOpcode = 0, respKeyLength = 0, respExtraLength = 0,
      respDataType = 0, respStatus = 0, respTotalBodyLength = 0, respOpaque = 0,
      respCAS = 0\<rparr>"

definition CodeNoError :: uint16 where "CodeNoError = 0x0000"
definition CodeKeyNotFound :: uint16 where "CodeKeyNotFound = 0x0001"
definition CodeKeyExists :: uint16 where "CodeKeyExists = 0x0002"

definition OpGet :: byte where "OpGet = 0x00"
definition OpSet :: byte where "OpSet = 0x01"
definition OpAdd :: byte where "OpAdd = 0x02"
definition OpReplace :: byte where "OpReplace = 0x03"
definition OpQuit :: byte where "OpQuit = 0x07"
definition OpGetQ :: byte where "OpGetQ = 0x09"
definition OpNoOp :: byte where "OpNoOp = 0x0a"
definition OpVersion :: byte where "OpVersion = 0x0b"
definition OpGetK :: byte where "OpGetK = 0x0c"
definition OpGetKQ :: byte where "OpGetKQ = 0x0d"
definition OpSetQ :: byte where "OpSetQ = 0x11"
definition OpAddQ :: byte where "OpAddQ = 0x12"
definition OpReplaceQ :: byte where "OpReplaceQ = 0x13"

definition MagicRequest :: byte where "MagicRequest = 0x80"
definition MagicResponse :: byte where "MagicResponse = 0x81"

definition MaxReqLen :: nat where "MaxReqLen = 1024 * 1024 * 1024"

text \<open>The dispatch table \<open>OpHandler\<close> of \<open>handlers.go\<close>: which handler serves
  which opcode.\<close>

datatype handler = SetHandlerH | GetHandlerH | VersionHandlerH | NoOpHandlerH | QuitHandlerH

definition OpHandler :: "byte \<rightharpoonup> handler" where
  "OpHandler = map_of
     [(OpSet, SetHandlerH), (OpSetQ, SetHandlerH), (OpAdd, SetHandlerH),
      (OpAddQ, SetHandlerH), (OpReplace, SetHandlerH), (OpReplaceQ, SetHandlerH),
      (OpGet, GetHandlerH), (OpGetQ, GetHandlerH), (OpGetK, GetHandlerH),
      (OpGetKQ, GetHandlerH), (OpVersion, VersionHandlerH), (OpNoOp, NoOpHandlerH),
      (OpQuit, QuitHandlerH)]"

section \<open>Parsing the request header (server.go)\<close>

text \<open>
  \<open>parseRequestHeader\<close> walks the slice, cutting off what it has read
  (\<open>buf = buf[1:]\<close>); an index past the end panics. The comparison of the lengths is
  done in \<open>uint64\<close>, where the sum of a 16-bit and an 8-bit number cannot wrap.
\<close>

definition parseRequestHeader :: "byte list \<Rightarrow> error + RequestHeader" where
  "parseRequestHeader bufHeader =
    (let buf = bufHeader in
     if length buf < 1 then Inl Panic else
     let magic = buf ! 0 in
     if magic \<noteq> MagicRequest then Inl (ErrMagic magic) else
     let buf = drop 1 buf in
     if length buf < 1 then Inl Panic else
     let opcode = buf ! 0 in
     if OpHandler opcode = None then Inl (ErrOpcode opcode) else
     let buf = drop 1 buf in
     andThen (GetUint16 buf) (\<lambda>keyLength.
     let buf = drop 2 buf in
     if length buf < 1 then Inl Panic else
     let extraLength = buf ! 0 in
     let buf = drop 1 buf in
     if length buf < 1 then Inl Panic else
     let dataType = buf ! 0 in
     if dataType \<noteq> 0x00 then Inl (ErrDataType dataType) else
     let buf = drop 1 buf in
     andThen (GetUint16 buf) (\<lambda>vBucketID.
     let buf = drop 2 buf in
     andThen (GetUint32 buf) (\<lambda>totalBodyLength.
     if (ucast totalBodyLength :: uint64) < ucast keyLength + ucast extraLength
     then Inl (ErrBodyLength totalBodyLength keyLength extraLength) else
     let buf = drop 4 buf in
     andThen (GetUint32 buf) (\<lambda>opaque.
     let buf = drop 4 buf in
     andThen (GetUint64 buf) (\<lambda>cas.
     Inr \<lparr>reqMagic = magic, reqOpcode = opcode, reqKeyLength = keyLength,
          reqExtraLength = extraLength, reqDataType = dataType,
          reqVBucketID = vBucketID, reqTotalBodyLength = totalBodyLength,
          reqOpaque = opaque, reqCAS = cas\<rparr>))))))"

section \<open>The connection: buffered reader and writer\<close>

text \<open>
  \<open>ConnectionContext.RW\<close> is a \<open>bufio.ReadWriter\<close> over a TCP connection. What
  the handlers can observe of it is modelled by three fields:
  \<^item> \<open>rd\<close>: the pieces of data the connection will still deliver, in order; one call
    of \<open>Read\<close> takes bytes from at most one piece, and a connection with no piece
    left is at end of file;
  \<^item> \<open>wr\<close>: all bytes written so far;
  \<^item> \<open>wr_room\<close>: how many more bytes the connection takes before a write fails
    (\<open>None\<close>: no limit).
\<close>

record ReadWriter =
  rd :: "byte list list"
  wr :: "byte list"
  wr_room :: "nat option"

definition can_write :: "ReadWriter \<Rightarrow> nat \<Rightarrow> bool" where
  "can_write rw n = (case wr_room rw of None \<Rightarrow> True | Some k \<Rightarrow> n \<le> k)"

definition written :: "ReadWriter \<Rightarrow> byte list \<Rightarrow> ReadWriter" where
  "written rw bs =
     rw\<lparr>wr := wr rw @ bs, wr_room := map_option (\<lambda>k. k - length bs) (wr_room rw)\<rparr>"

definition WriteByte :: "ReadWriter \<Rightarrow> byte \<Rightarrow> error + ReadWriter" where
  "WriteByte rw c = (if can_write rw 1 then Inr (written rw [c]) else Inl WriteError)"

text \<open>\<open>bufio.Writer.Write\<close> returns \<open>len(p)\<close>, or an error when it wrote less.\<close>

definition Write :: "ReadWriter \<Rightarrow> byte list \<Rightarrow> error + (nat \<times> ReadWriter)" where
  "Write rw p =
     (if can_write rw (length p) then Inr (length p, written rw p) else Inl WriteError)"

text \<open>\<open>Read rw n\<close> is \<open>rw.Read(p)\<close> for a slice \<open>p\<close> of length \<open>n\<close>: the bytes
  it puts at the start of \<open>p\<close>, and the connection after the call.\<close>

definition Read :: "ReadWriter \<Rightarrow> nat \<Rightarrow> error + (byte list \<times> ReadWriter)" where
  "Read rw n =
     (case rd rw of
        [] \<Rightarrow> Inl EOF
      | c # cs \<Rightarrow>
          if length c \<le> n then Inr (c, rw\<lparr>rd := cs\<rparr>)
          else Inr (take n c, rw\<lparr>rd := drop n c # cs\<rparr>))"

text \<open>A counted loop \<open>for pos := ...\<close> or \<open>for _, c := range ...\<close> whose body is one
  \<open>WriteByte\<close> and which returns at the first error.\<close>

fun WriteByte_for :: "'a list \<Rightarrow> ('a \<Rightarrow> byte) \<Rightarrow> ReadWriter \<Rightarrow> error + ReadWriter" where
  "WriteByte_for [] f rw = Inr rw"
| "WriteByte_for (x # xs) f rw = andThen (WriteByte rw (f x)) (WriteByte_for xs f)"

text \<open>
  The loop \<open>for writeLen < l { n, err := rw.Write(buf); ...; writeLen += n; buf = buf[n:] }\<close>
  of the handlers. At both places \<open>l - writeLen\<close> is the length of \<open>buf\<close> on entry and
  stays so, hence the loop test is \<open>0 < len(buf)\<close>.
\<close>

function write_loop :: "ReadWriter \<Rightarrow> byte list \<Rightarrow> error + ReadWriter" where
  "write_loop rw buf =
     (if 0 < length buf then
        (case Write rw buf of
           Inl err \<Rightarrow> Inl err
         | Inr (n, rw') \<Rightarrow> write_loop rw' (drop n buf))
      else Inr rw)"
  by pat_completeness auto
termination
  by (relation "measure (\<lambda>(rw, buf). length buf)")
     (auto simp: Write_def split: if_splits)

declare write_loop.simps [simp del]

text \<open>
  The loop \<open>for readLen < int(total) { reqLen, err := rw.Read(buf[readLen:]); ... }\<close>:
  \<open>buf\<close> is the slice being filled, of length \<open>total\<close>. A call of \<open>Read\<close> either
  delivers bytes or uses up an empty piece, so the loop ends.
\<close>

function read_loop :: "ReadWriter \<Rightarrow> byte list \<Rightarrow> nat \<Rightarrow> error + (byte list \<times> ReadWriter)" where
  "read_loop rw buf readLen =
     (if readLen < length buf then
        (case Read rw (length buf - readLen) of
           Inl err \<Rightarrow> Inl err
         | Inr (bs, rw') \<Rightarrow>
             read_loop rw' (take readLen buf @ bs @ drop (readLen + length bs) buf)
               (readLen + length bs))
      else Inr (buf, rw))"
  by pat_completeness auto
termination
  by (relation "measures [\<lambda>(rw, buf, readLen). length buf - readLen,
                          \<lambda>(rw, buf, readLen). length (rd rw)]")
     (auto simp: Read_def split: list.splits if_splits)

declare read_loop.simps [simp del]

text \<open>The doubling loop \<open>for nsize < int(total) { nsize *= 2 }\<close>. It does not return
  from \<open>nsize = 0\<close>; not returning is the value \<open>None\<close>.\<close>

partial_function (option) grow_nsize :: "nat \<Rightarrow> nat \<Rightarrow> nat option" where
  "grow_nsize nsize totalLen =
     (if nsize < totalLen then grow_nsize (nsize * 2) totalLen else Some nsize)"

text \<open>Of the connection context the handlers use the reader/writer and the read
  buffer; the remaining fields (connection id, times, command counter) are left out.\<close>

record ConnectionContext =
  RW :: ReadWriter
  ReadBuf :: "byte list"

text \<open>
  Lines 34 to 43 of \<open>GetHandler\<close>, repeated as lines 130 to 139 of \<open>SetHandler\<close>:
  when the body does not fit, the read buffer is replaced by a larger one, and a body
  of more than \<open>MaxReqLen\<close> bytes is refused. The length of the buffer is compared as
  a \<open>uint32\<close>.
\<close>

definition growReadBuf ::
  "uint32 \<Rightarrow> ConnectionContext \<Rightarrow> (error + ConnectionContext) option" where
  "growReadBuf totalLen ctx =
     (if totalLen > (word_of_nat (length (ReadBuf ctx)) :: uint32) then
        if unat totalLen > MaxReqLen then Some (Inl (ErrTooLarge totalLen))
        else (case grow_nsize (length (ReadBuf ctx)) (unat totalLen) of
                None \<Rightarrow> None
              | Some nsize \<Rightarrow> Some (Inr (ctx\<lparr>ReadBuf := replicate nsize 0\<rparr>)))
      else Some (Inr ctx))"

text \<open>
  Lines 34 to 52 of \<open>GetHandler\<close>, repeated as lines 130 to 148 of \<open>SetHandler\<close>:
  after the growth, \<open>buf := ctx.ReadBuf[:total]\<close> is filled from the connection. The
  slice expression panics when \<open>total\<close> is past the buffer's capacity. The result is
  the slice read and the context, whose buffer holds the body at its start.
\<close>

definition readBody ::
  "uint32 \<Rightarrow> ConnectionContext \<Rightarrow> (error + (byte list \<times> ConnectionContext)) option" where
  "readBody totalLen ctx =
     (case growReadBuf totalLen ctx of
        None \<Rightarrow> None
      | Some (Inl err) \<Rightarrow> Some (Inl err)
      | Some (Inr ctx1) \<Rightarrow>
          if unat totalLen > length (ReadBuf ctx1) then Some (Inl Panic)
          else
            (case read_loop (RW ctx1) (take (unat totalLen) (ReadBuf ctx1)) 0 of
               Inl err \<Rightarrow> Some (Inl err)
             | Inr (buf, rw) \<Rightarrow>
                 Some (Inr (buf, ctx1\<lparr>RW := rw,
                              ReadBuf := buf @ drop (unat totalLen) (ReadBuf ctx1)\<rparr>))))"

section \<open>Writing the response header (server.go)\<close>

definition writeResponseHeader :: "ResponseHeader \<Rightarrow> ReadWriter \<Rightarrow> error + ReadWriter" where
  "writeResponseHeader header rw =
     andThen (WriteByte rw (respMagic header)) (\<lambda>rw.
     andThen (WriteByte rw (respOpcode header)) (\<lambda>rw.
     andThen (WriteByte rw (GetNthByteFromUint16 (respKeyLength header) 0)) (\<lambda>rw.
     andThen (WriteByte rw (GetNthByteFromUint16 (respKeyLength header) 1)) (\<lambda>rw.
     andThen (WriteByte rw (respExtraLength header)) (\<lambda>rw.
     andThen (WriteByte rw (respDataType header)) (\<lambda>rw.
     andThen (WriteByte rw (GetNthByteFromUint16 (respStatus header) 0)) (\<lambda>rw.
     andThen (WriteByte rw (GetNthByteFromUint16 (respStatus header) 1)) (\<lambda>rw.
     andThen (WriteByte_for [0, 1, 2, 3]
                (GetNthByteFromUint32 (respTotalBodyLength header)) rw) (\<lambda>rw.
     andThen (WriteByte_for [0, 1, 2, 3]
                (GetNthByteFromUint32 (respOpaque header)) rw) (\<lambda>rw.
     let l = (ucast (drop_bit 32 (respCAS header)) :: uint32);
         r = (ucast (respCAS header AND 0x00000000ffffffff) :: uint32)
     in
     andThen (WriteByte_for [0, 1, 2, 3] (GetNthByteFromUint32 l) rw) (\<lambda>rw.
     WriteByte_for [0, 1, 2, 3] (GetNthByteFromUint32 r) rw)))))))))))"

section \<open>The key/value store (unnamed part: \<open>SimpleValue\<close>, \<open>simplekvMap\<close>)\<close>

text \<open>
  \<open>TTL\<close> is a Go \<open>int\<close>. Its values are a 32-bit unsigned number, possibly plus a
  second of the minute, so on a platform with 64-bit \<open>int\<close> no operation on it
  overflows, and it is modelled by an unbounded integer.
\<close>

record SimpleValue =
  RawData :: "byte list"
  Flag :: uint32
  CAS :: uint64
  TTL :: int

text \<open>Go's zero value \<open>SimpleValue{}\<close>.\<close>

definition SimpleValue0 :: SimpleValue where
  "SimpleValue0 = \<lparr>RawData = [], Flag = 0, CAS = 0, TTL = 0\<rparr>"

text \<open>The package variables \<open>simplekvMap\<close> and \<open>casID\<close>; a Go string key is its
  bytes. Every primitive runs with the mutex held, that is, as one step on this state.\<close>

record store =
  simplekvMap :: "byte list \<rightharpoonup> SimpleValue"
  casID :: uint64

definition store0 :: store where
  "store0 = \<lparr>simplekvMap = Map.empty, casID = 0\<rparr>"

text \<open>\<open>atomic.AddUint64(&casID, delta)\<close>: the new value, and the state holding it.\<close>

definition AddUint64 :: "uint64 \<Rightarrow> store \<Rightarrow> uint64 \<times> store" where
  "AddUint64 delta s = (casID s + delta, s\<lparr>casID := casID s + delta\<rparr>)"

text \<open>
  The part of \<open>GetFromSimpleKV\<close> that runs under the exclusive lock: \<open>cas\<close> is the
  CAS seen under the shared lock before, and \<open>s\<close> the state found now, which
  another connection may have changed in between.
\<close>

definition GetFromSimpleKV_locked ::
  "byte list \<Rightarrow> uint64 \<Rightarrow> store \<Rightarrow> (SimpleValue \<times> bool) \<times> store" where
  "GetFromSimpleKV_locked key cas s =
     (case simplekvMap s key of
        Some val \<Rightarrow>
          if CAS val = cas
          then ((SimpleValue0, False), s\<lparr>simplekvMap := (simplekvMap s)(key := None)\<rparr>)
          else ((val, True), s)
      | None \<Rightarrow> ((SimpleValue0, False), s))"

text \<open>\<open>now\<close> is the value of \<open>time.Now().Second()\<close>, the second of the current
  minute, when the lookup reads the clock. Here no other connection runs between
  the two locks.\<close>

definition GetFromSimpleKV ::
  "byte list \<Rightarrow> int \<Rightarrow> store \<Rightarrow> (SimpleValue \<times> bool) \<times> store" where
  "GetFromSimpleKV key now s =
     (case simplekvMap s key of
        None \<Rightarrow> ((SimpleValue0, False), s)
      | Some val \<Rightarrow>
          let cas = CAS val in
          if TTL val \<noteq> 0 \<and> TTL val < now then GetFromSimpleKV_locked key cas s
          else ((val, True), s))"

definition AddToSimpleKV ::
  "byte list \<Rightarrow> SimpleValue \<Rightarrow> store \<Rightarrow> (SimpleValue \<times> bool) \<times> store" where
  "AddToSimpleKV key newVal s =
     (case simplekvMap s key of
        Some _ \<Rightarrow> ((newVal, False), s)
      | None \<Rightarrow>
          let (c, s) = AddUint64 1 s;
              newVal = newVal\<lparr>CAS := c\<rparr>;
              (newVal, s) =
                (if CAS newVal = 0
                 then (let (c, s) = AddUint64 1 s in (newVal\<lparr>CAS := c\<rparr>, s))
                 else (newVal, s));
              s = s\<lparr>simplekvMap := (simplekvMap s)(key \<mapsto> newVal)\<rparr>
          in ((newVal, True), s))"

text \<open>The results are: the value, "the key is missing", "the call succeeded". Reading
  a missing key of a Go map gives the zero value and \<open>ok = false\<close>.\<close>

definition SetToSimpleKV ::
  "byte list \<Rightarrow> SimpleValue \<Rightarrow> uint64 \<Rightarrow> bool \<Rightarrow> store
     \<Rightarrow> (SimpleValue \<times> bool \<times> bool) \<times> store" where
  "SetToSimpleKV key newVal cas replace s =
     (let (oldVal, ok) =
            (case simplekvMap s key of
               None \<Rightarrow> (SimpleValue0, False)
             | Some v \<Rightarrow> (v, True))
      in
      if \<not> ok \<and> replace then ((newVal, True, False), s)
      else if ok \<and> cas \<noteq> 0 \<and> cas \<noteq> CAS oldVal then ((newVal, False, False), s)
      else
        let (c, s) = AddUint64 1 s;
            newVal = newVal\<lparr>CAS := c\<rparr>;
            (newVal, s) =
              (if CAS newVal = 0
               then (let (c, s) = AddUint64 1 s in (newVal\<lparr>CAS := c\<rparr>, s))
               else (newVal, s));
            s = s\<lparr>simplekvMap := (simplekvMap s)(key \<mapsto> newVal)\<rparr>
        in ((newVal, False, True), s))"

section \<open>The command handlers (handlers.go)\<close>

text \<open>\<open>[]byte(str)\<close> of a string constant.\<close>

definition bytes_of :: "string \<Rightarrow> byte list" where
  "bytes_of str = map of_char str"

text \<open>
  Lines 57 to 121 of \<open>GetHandler\<close>: the response to a lookup that gave \<open>val\<close> and
  \<open>ok\<close> for the key \<open>buf\<close>.
\<close>

definition GetHandler_respond ::
  "RequestHeader \<Rightarrow> ConnectionContext \<Rightarrow> byte list \<Rightarrow> SimpleValue \<Rightarrow> bool
     \<Rightarrow> error + ConnectionContext" where
  "GetHandler_respond header ctx buf val ok =
     (let respHeader = ResponseHeader0\<lparr>respMagic := MagicResponse,
                         respOpcode := reqOpcode header, respOpaque := reqOpaque header\<rparr>
      in
      if \<not> ok then
        if reqOpcode header = OpGetQ \<or> reqOpcode header = OpGetKQ then Inr ctx
        else
          let respHeader = respHeader\<lparr>respStatus := CodeKeyNotFound,
                             respTotalBodyLength := word_of_nat (length ''Not found'')\<rparr>
          in
          andThen (writeResponseHeader respHeader (RW ctx)) (\<lambda>rw.
          andThen (WriteByte_for (bytes_of ''Not found'') (\<lambda>c. c) rw) (\<lambda>rw.
          Inr (ctx\<lparr>RW := rw\<rparr>)))
      else
        let respHeader = respHeader\<lparr>respStatus := CodeNoError, respExtraLength := 0x04\<rparr>;
            respHeader =
              (if reqOpcode header = OpGetK \<or> reqOpcode header = OpGetKQ
               then respHeader\<lparr>respKeyLength := word_of_nat (length buf)\<rparr>
               else respHeader);
            respHeader = respHeader\<lparr>respTotalBodyLength :=
                           word_of_nat (length (RawData val))
                           + ucast (respExtraLength respHeader)
                           + ucast (respKeyLength respHeader)\<rparr>;
            respHeader = respHeader\<lparr>respCAS := CAS val\<rparr>
        in
        andThen (writeResponseHeader respHeader (RW ctx)) (\<lambda>rw.
        andThen (WriteByte_for [0, 1, 2, 3] (GetNthByteFromUint32 (Flag val)) rw) (\<lambda>rw.
        andThen (if respKeyLength respHeader > 0 then write_loop rw buf else Inr rw) (\<lambda>rw.
        andThen (write_loop rw (RawData val)) (\<lambda>rw.
        Inr (ctx\<lparr>RW := rw\<rparr>))))))"

text \<open>
  A handler returns its error or the connection context it leaves, and the store;
  \<open>None\<close> means that it does not return. \<open>now\<close> is what \<open>time.Now().Second()\<close>
  gives when the handler reads the clock.
\<close>

definition GetHandler ::
  "RequestHeader \<Rightarrow> ConnectionContext \<Rightarrow> int \<Rightarrow> store
     \<Rightarrow> ((error + ConnectionContext) \<times> store) option" where
  "GetHandler header ctx now s =
     (if reqExtraLength header > 0
      then Some (Inl (ErrGetExtraLength (reqExtraLength header)), s)
      else if reqKeyLength header = 0 then Some (Inl ErrGetKeyLength, s)
      else if reqTotalBodyLength header
              \<noteq> ucast (reqKeyLength header) + ucast (reqExtraLength header)
      then Some (Inl (ErrGetValue (reqTotalBodyLength header) (reqKeyLength header)
                        (reqExtraLength header)), s)
      else
        (case readBody (reqTotalBodyLength header) ctx of
           None \<Rightarrow> None
         | Some (Inl err) \<Rightarrow> Some (Inl err, s)
         | Some (Inr (buf, ctx)) \<Rightarrow>
             let ((val, ok), s) = GetFromSimpleKV buf now s
             in Some (GetHandler_respond header ctx buf val ok, s)))"

text \<open>
  Lines 149 to 163 of \<open>SetHandler\<close>: the flag, the deadline, the key and the value of a
  body \<open>buf\<close>, which is the start of the read buffer \<open>arr\<close>. The sum
  \<open>8+header.KeyLength\<close> is a \<open>uint16\<close> and wraps. The slice \<open>buf[8 : 8+KeyLength]\<close>
  may reach past the length of \<open>buf\<close> up to its capacity, and panics when the upper
  bound is below 8 or past the capacity; \<open>buf[8+KeyLength:]\<close> panics when its bound
  is past the length.
\<close>

definition SetHandler_body ::
  "RequestHeader \<Rightarrow> byte list \<Rightarrow> byte list \<Rightarrow> int \<Rightarrow> error + (byte list \<times> SimpleValue)" where
  "SetHandler_body header buf arr now =
     andThen (GetUint32 buf) (\<lambda>newFlag.
     andThen (GetUint32 (drop 4 buf)) (\<lambda>rawTTL.
     let ttl = uint rawTTL;
         ttl = (if ttl > 0 then ttl + now else ttl);
         hi = unat (8 + reqKeyLength header)
     in
     if hi < 8 \<or> length arr < hi then Inl Panic
     else
       let key = take (hi - 8) (drop 8 arr) in
       if length buf < hi then Inl Panic
       else
         let newBuf = drop hi buf in
         Inr (key, \<lparr>RawData = newBuf, Flag = newFlag, CAS = 0, TTL = ttl\<rparr>)))"

text \<open>Lines 165 to 191: the access to the store. The result is \<open>shouldFail\<close>,
  \<open>responseCode\<close>, \<open>responseCAS\<close> and the store.\<close>

definition SetHandler_store ::
  "RequestHeader \<Rightarrow> byte list \<Rightarrow> SimpleValue \<Rightarrow> store \<Rightarrow> bool \<times> uint16 \<times> uint64 \<times> store" where
  "SetHandler_store header key newVal s =
     (if reqOpcode header = OpAdd \<or> reqOpcode header = OpAddQ then
        let ((newVal, ok), s) = AddToSimpleKV key newVal s in
        if \<not> ok then (True, CodeKeyExists, 0, s)
        else (False, CodeNoError, CAS newVal, s)
      else
        let ((newVal, notfound, ok), s) =
              SetToSimpleKV key newVal (reqCAS header)
                (reqOpcode header = OpReplace \<or> reqOpcode header = OpReplaceQ) s
        in
        if notfound then (True, CodeKeyNotFound, 0, s)
        else if \<not> ok then (True, CodeKeyExists, 0, s)
        else (False, CodeNoError, CAS newVal, s))"

text \<open>Lines 192 to 227, from the label \<open>output\<close> on.\<close>

definition SetHandler_output ::
  "RequestHeader \<Rightarrow> ConnectionContext \<Rightarrow> bool \<Rightarrow> uint16 \<Rightarrow> uint64
     \<Rightarrow> error + ConnectionContext" where
  "SetHandler_output header ctx shouldFail responseCode responseCAS =
     (let respHeader = ResponseHeader0\<lparr>respMagic := MagicResponse,
                         respOpcode := reqOpcode header, respOpaque := reqOpaque header,
                         respStatus := CodeNoError, respCAS := responseCAS\<rparr>;
          errStr = [];
          (respHeader, errStr) =
            (if shouldFail then
               let respHeader = respHeader\<lparr>respStatus := responseCode\<rparr> in
               if responseCode = CodeKeyNotFound
               then (respHeader\<lparr>respTotalBodyLength := word_of_nat (length ''Not found'')\<rparr>,
                     ''Not found'')
               else if responseCode = CodeKeyExists
               then (respHeader\<lparr>respTotalBodyLength :=
                                    word_of_nat (length ''Data exists for key.'')\<rparr>,
                     ''Data exists for key.'')
               else (respHeader, errStr)
             else (respHeader, errStr))
      in
      if \<not> shouldFail \<and> (reqOpcode header = OpAddQ \<or> reqOpcode header = OpReplaceQ
                           \<or> reqOpcode header = OpSetQ)
      then Inr ctx
      else
        andThen (writeResponseHeader respHeader (RW ctx)) (\<lambda>rw.
        andThen (WriteByte_for (bytes_of errStr) (\<lambda>c. c) rw) (\<lambda>rw.
        Inr (ctx\<lparr>RW := rw\<rparr>))))"

definition SetHandler ::
  "RequestHeader \<Rightarrow> ConnectionContext \<Rightarrow> int \<Rightarrow> store
     \<Rightarrow> ((error + ConnectionContext) \<times> store) option" where
  "SetHandler header ctx now s =
     (if reqExtraLength header \<noteq> 8 \<or> reqKeyLength header = 0
      then Some (Inl (ErrSetShape (reqKeyLength header) (reqExtraLength header)
                        (reqTotalBodyLength header)), s)
      else
        (case readBody (reqTotalBodyLength header) ctx of
           None \<Rightarrow> None
         | Some (Inl err) \<Rightarrow> Some (Inl err, s)
         | Some (Inr (buf, ctx)) \<Rightarrow>
             (case SetHandler_body header buf (ReadBuf ctx) now of
                Inl err \<Rightarrow> Some (Inl err, s)
              | Inr (key, newVal) \<Rightarrow>
                  let (shouldFail, responseCode, responseCAS, s) =
                        SetHandler_store header key newVal s
                  in Some (SetHandler_output header ctx shouldFail responseCode
                             responseCAS, s))))"

section \<open>Notions of the specification\<close>

text \<open>The number a byte string denotes in network byte order (big-endian).\<close>

definition be_nat :: "byte list \<Rightarrow> nat" where
  "be_nat bs = foldl (\<lambda>acc b. acc * 256 + unat b) 0 bs"

text \<open>Writing the bytes \<open>bs\<close> to the connection: all of them, or an error.\<close>

definition emit :: "ReadWriter \<Rightarrow> byte list \<Rightarrow> error + ReadWriter" where
  "emit rw bs = (if can_write rw (length bs) then Inr (written rw bs) else Inl WriteError)"

text \<open>The 24 bytes of a response header on the wire.\<close>

definition responseHeaderBytes :: "ResponseHeader \<Rightarrow> byte list" where
  "responseHeaderBytes h =
     [respMagic h, respOpcode h,
      ucast (drop_bit 8 (respKeyLength h)), ucast (respKeyLength h),
      respExtraLength h, respDataType h,
      ucast (drop_bit 8 (respStatus h)), ucast (respStatus h),
      ucast (drop_bit 24 (respTotalBodyLength h)), ucast (drop_bit 16 (respTotalBodyLength h)),
      ucast (drop_bit 8 (respTotalBodyLength h)), ucast (respTotalBodyLength h),
      ucast (drop_bit 24 (respOpaque h)), ucast (drop_bit 16 (respOpaque h)),
      ucast (drop_bit 8 (respOpaque h)), ucast (respOpaque h),
      ucast (drop_bit 56 (respCAS h)), ucast (drop_bit 48 (respCAS h)),
      ucast (drop_bit 40 (respCAS h)), ucast (drop_bit 32 (respCAS h)),
      ucast (drop_bit 24 (respCAS h)), ucast (drop_bit 16 (respCAS h)),
      ucast (drop_bit 8 (respCAS h)), ucast (respCAS h)]"

text \<open>The opcodes of the dispatch table, by number.\<close>

definition known_opcodes :: "byte set" where
  "known_opcodes = {0x00, 0x01, 0x02, 0x03, 0x07, 0x09, 0x0a, 0x0b, 0x0c, 0x0d, 0x11, 0x12, 0x13}"

text \<open>A request header: GetK, key length 5, total body length 5, opaque 0xdeadbeef,
  CAS 0x0102.\<close>

definition example_request :: "byte list" where
  "example_request =
     [0x80, 0x0c, 0x00, 0x05, 0x00, 0x00, 0x00, 0x00, 0x00, 0x00, 0x00, 0x05,
      0xde, 0xad, 0xbe, 0xef, 0x00, 0x00, 0x00, 0x00, 0x00, 0x00, 0x01, 0x02]"

text \<open>The outcomes of the store primitives in the words of the specification.\<close>

datatype set_result = Stored SimpleValue | Not_found | Cas_mismatch

datatype add_result = Added SimpleValue | Already_exists

text \<open>A fresh CAS: the counter advanced by one step, and once more when that gave 0.\<close>

definition fresh_cas :: "uint64 \<Rightarrow> uint64" where
  "fresh_cas c = (if c + 1 = 0 then c + 1 + 1 else c + 1)"

text \<open>Stamp a fresh CAS into the candidate and store it under the key.\<close>

definition store_entry :: "byte list \<Rightarrow> SimpleValue \<Rightarrow> store \<Rightarrow> SimpleValue \<times> store" where
  "store_entry key candidate s =
     (let c = fresh_cas (casID s); e = candidate\<lparr>CAS := c\<rparr>
      in (e, \<lparr>simplekvMap = (simplekvMap s)(key \<mapsto> e), casID = c\<rparr>))"

text \<open>The three steps of \<open>set_or_replace\<close>, and \<open>add\<close>, as the specification words
  them.\<close>

definition set_or_replace ::
  "byte list \<Rightarrow> SimpleValue \<Rightarrow> uint64 \<Rightarrow> bool \<Rightarrow> store \<Rightarrow> set_result \<times> store" where
  "set_or_replace key candidate expected_cas replace_only s =
     (case simplekvMap s key of
        None \<Rightarrow>
          if replace_only then (Not_found, s)
          else (let (e, s') = store_entry key candidate s in (Stored e, s'))
      | Some current \<Rightarrow>
          if expected_cas \<noteq> 0 \<and> expected_cas \<noteq> CAS current then (Cas_mismatch, s)
          else (let (e, s') = store_entry key candidate s in (Stored e, s')))"

definition add :: "byte list \<Rightarrow> SimpleValue \<Rightarrow> store \<Rightarrow> add_result \<times> store" where
  "add key candidate s =
     (case simplekvMap s key of
        Some current \<Rightarrow> (Already_exists, s)
      | None \<Rightarrow> (let (e, s') = store_entry key candidate s in (Added e, s')))"

text \<open>A candidate entry and a store holding it under the key \<open>k\<close>.\<close>

definition example_value :: SimpleValue where
  "example_value = \<lparr>RawData = [0x57, 0x6f], Flag = 7, CAS = 0, TTL = 0\<rparr>"

definition example_store :: store where
  "example_store = \<lparr>simplekvMap = [[0x6b] \<mapsto> example_value\<lparr>CAS := 1\<rparr>], casID = 1\<rparr>"

text \<open>Operations on the store, and what a sequence of them does: the CAS values
  stamped by its successful mutations, in order, and the final state.\<close>

datatype kv_op =
    DoAdd "byte list" SimpleValue
  | DoSet "byte list" SimpleValue uint64 bool
  | DoGet "byte list" int

fun kv_step :: "kv_op \<Rightarrow> store \<Rightarrow> uint64 option \<times> store" where
  "kv_step (DoAdd key v) s =
     (let ((e, ok), s') = AddToSimpleKV key v s in (if ok then Some (CAS e) else None, s'))"
| "kv_step (DoSet key v cas replace) s =
     (let ((e, notfound, ok), s') = SetToSimpleKV key v cas replace s
      in (if ok then Some (CAS e) else None, s'))"
| "kv_step (DoGet key now) s = (None, snd (GetFromSimpleKV key now s))"

fun kv_run :: "kv_op list \<Rightarrow> store \<Rightarrow> uint64 list \<times> store" where
  "kv_run [] s = ([], s)"
| "kv_run (x # xs) s =
     (let (c, s1) = kv_step x s; (cs, s2) = kv_run xs s1
      in ((case c of None \<Rightarrow> cs | Some y \<Rightarrow> y # cs), s2))"

text \<open>No live entry has CAS 0; no two live entries share a CAS; no live entry has a
  CAS above the counter.\<close>

definition cas_nonzero :: "store \<Rightarrow> bool" where
  "cas_nonzero s = (\<forall>k v. simplekvMap s k = Some v \<longrightarrow> CAS v \<noteq> 0)"

definition cas_unique :: "store \<Rightarrow> bool" where
  "cas_unique s = (\<forall>k k' v v'. simplekvMap s k = Some v \<longrightarrow> simplekvMap s k' = Some v'
                      \<longrightarrow> CAS v = CAS v' \<longrightarrow> k = k')"

definition cas_below :: "store \<Rightarrow> bool" where
  "cas_below s = (\<forall>k v. simplekvMap s k = Some v \<longrightarrow> CAS v \<le> casID s)"

text \<open>A run: add, failed add, set with the right CAS, lookup, set of a second key.\<close>

definition example_ops :: "kv_op list" where
  "example_ops =
     [DoAdd [0x6b] example_value, DoAdd [0x6b] example_value,
      DoSet [0x6b] example_value 1 False, DoGet [0x6b] 30, DoSet [0x6c] example_value 0 False]"

text \<open>A store with an entry of deadline 5 and an entry without deadline.\<close>

definition expiring_value :: SimpleValue where
  "expiring_value = \<lparr>RawData = [0x57, 0x6f], Flag = 7, CAS = 1, TTL = 5\<rparr>"

definition lasting_value :: SimpleValue where
  "lasting_value = \<lparr>RawData = [0x21], Flag = 0, CAS = 2, TTL = 0\<rparr>"

definition expiry_store :: store where
  "expiry_store =
     \<lparr>simplekvMap = [[0x6b] \<mapsto> expiring_value, [0x6c] \<mapsto> lasting_value], casID = 2\<rparr>"

text \<open>The four bytes of a 32-bit number in network byte order.\<close>

definition be_bytes32 :: "uint32 \<Rightarrow> byte list" where
  "be_bytes32 v =
     [ucast (drop_bit 24 v), ucast (drop_bit 16 v), ucast (drop_bit 8 v), ucast v]"

text \<open>
  The response of the GET family in the words of the specification, for the request
  header \<open>h\<close>, the key read and the result of the lookup. No byte is sent for a
  quiet miss.
\<close>

definition get_response :: "RequestHeader \<Rightarrow> byte list \<Rightarrow> SimpleValue \<times> bool \<Rightarrow> byte list" where
  "get_response h key r =
     (case r of (entry, hit) \<Rightarrow>
        if \<not> hit then
          (if reqOpcode h = 0x09 \<or> reqOpcode h = 0x0d then []
           else responseHeaderBytes
                  \<lparr>respMagic = 0x81, respOpcode = reqOpcode h, respKeyLength = 0,
                   respExtraLength = 0, respDataType = 0, respStatus = 0x0001,
                   respTotalBodyLength = 9, respOpaque = reqOpaque h, respCAS = 0\<rparr>
                @ bytes_of ''Not found'')
        else
          (let with_key = (reqOpcode h = 0x0c \<or> reqOpcode h = 0x0d);
               key_length_out = (if with_key then length key else 0)
           in responseHeaderBytes
                \<lparr>respMagic = 0x81, respOpcode = reqOpcode h,
                 respKeyLength = word_of_nat key_length_out,
                 respExtraLength = 4, respDataType = 0, respStatus = 0x0000,
                 respTotalBodyLength =
                   word_of_nat (4 + key_length_out + length (RawData entry)),
                 respOpaque = reqOpaque h, respCAS = CAS entry\<rparr>
              @ be_bytes32 (Flag entry)
              @ (if with_key then key else [])
              @ RawData entry))"

text \<open>A GetK request for the key \<open>k\<close>, and a connection that delivers the body in
  one piece, before and after the handler has run.\<close>

definition example_get :: RequestHeader where
  "example_get =
     \<lparr>reqMagic = 0x80, reqOpcode = 0x0c, reqKeyLength = 1, reqExtraLength = 0,
      reqDataType = 0, reqVBucketID = 0, reqTotalBodyLength = 1, reqOpaque = 0xdeadbeef,
      reqCAS = 0\<rparr>"

definition example_ctx :: "byte list \<Rightarrow> ConnectionContext" where
  "example_ctx body =
     \<lparr>RW = \<lparr>rd = [body], wr = [], wr_room = None\<rparr>, ReadBuf = replicate 16 0\<rparr>"

definition example_ctx_after :: "byte list \<Rightarrow> byte list \<Rightarrow> ConnectionContext" where
  "example_ctx_after body out =
     \<lparr>RW = \<lparr>rd = [], wr = out, wr_room = None\<rparr>,
      ReadBuf = body @ replicate (16 - length body) 0\<rparr>"

text \<open>
  The body of a request of the SET family in the words of the specification: a 4-byte
  flag, a 4-byte raw TTL, the key, and the value as the remainder; and the deadline
  stored for a raw TTL when the clock shows \<open>now\<close>.
\<close>

definition ttl_deadline :: "nat \<Rightarrow> int \<Rightarrow> int" where
  "ttl_deadline raw_ttl now = (if raw_ttl > 0 then int raw_ttl + now else 0)"

definition set_key :: "RequestHeader \<Rightarrow> byte list \<Rightarrow> byte list" where
  "set_key h body = take (unat (reqKeyLength h)) (drop 8 body)"

definition set_candidate :: "RequestHeader \<Rightarrow> byte list \<Rightarrow> int \<Rightarrow> SimpleValue" where
  "set_candidate h body now =
     \<lparr>RawData = drop (8 + unat (reqKeyLength h)) body,
      Flag = word_of_nat (be_nat (take 4 body)),
      CAS = 0,
      TTL = ttl_deadline (be_nat (take 4 (drop 4 body))) now\<rparr>"

text \<open>What a request of the SET family does to the store, and the response to it, in
  the words of the specification.\<close>

datatype outcome = Success SimpleValue | Failure uint16

definition set_dispatch ::
  "RequestHeader \<Rightarrow> byte list \<Rightarrow> SimpleValue \<Rightarrow> store \<Rightarrow> outcome \<times> store" where
  "set_dispatch h key candidate s =
     (if reqOpcode h = 0x02 \<or> reqOpcode h = 0x12 then
        (case add key candidate s of
           (Added e, s') \<Rightarrow> (Success e, s')
         | (Already_exists, s') \<Rightarrow> (Failure 0x0002, s'))
      else
        (case set_or_replace key candidate (reqCAS h)
                (reqOpcode h = 0x03 \<or> reqOpcode h = 0x13) s of
           (Stored e, s') \<Rightarrow> (Success e, s')
         | (Not_found, s') \<Rightarrow> (Failure 0x0001, s')
         | (Cas_mismatch, s') \<Rightarrow> (Failure 0x0002, s')))"

definition failure_text :: "uint16 \<Rightarrow> string" where
  "failure_text status = (if status = 0x0001 then ''Not found'' else ''Data exists for key.'')"

definition set_response :: "RequestHeader \<Rightarrow> outcome \<Rightarrow> byte list" where
  "set_response h outcome =
     (case outcome of
        Success e \<Rightarrow>
          if reqOpcode h = 0x11 \<or> reqOpcode h = 0x12 \<or> reqOpcode h = 0x13 then []
          else responseHeaderBytes
                 \<lparr>respMagic = 0x81, respOpcode = reqOpcode h, respKeyLength = 0,
                  respExtraLength = 0, respDataType = 0, respStatus = 0x0000,
                  respTotalBodyLength = 0, respOpaque = reqOpaque h, respCAS = CAS e\<rparr>
      | Failure status \<Rightarrow>
          responseHeaderBytes
            \<lparr>respMagic = 0x81, respOpcode = reqOpcode h, respKeyLength = 0,
             respExtraLength = 0, respDataType = 0, respStatus = status,
             respTotalBodyLength = word_of_nat (length (failure_text status)),
             respOpaque = reqOpaque h, respCAS = 0\<rparr>
          @ bytes_of (failure_text status))"

text \<open>A request of the SET family for the key \<open>k\<close>, flag 7, raw TTL 10, and its body;
  the store after it has been served at second 30 from the empty store.\<close>

definition example_set :: "byte \<Rightarrow> RequestHeader" where
  "example_set opcode =
     \<lparr>reqMagic = 0x80, reqOpcode = opcode, reqKeyLength = 1, reqExtraLength = 8,
      reqDataType = 0, reqVBucketID = 0, reqTotalBodyLength = 11, reqOpaque = 0xdeadbeef,
      reqCAS = 0\<rparr>"

definition example_set_body :: "byte list" where
  "example_set_body = [0, 0, 0, 7, 0, 0, 0, 10, 0x6b, 0x57, 0x6f]"

definition stored_example :: store where
  "stored_example =
     \<lparr>simplekvMap = [[0x6b] \<mapsto> \<lparr>RawData = [0x57, 0x6f], Flag = 7, CAS = 1, TTL = 40\<rparr>],
      casID = 1\<rparr>"

text \<open>
  A Replace request that the parser accepts: key length 65528, extra length 8, total
  body length 65536; its body (flag 0, raw TTL 0, a key of 65528 zero bytes, no
  value); and a connection with the read buffer of 4096 bytes that the connection
  worker makes, which delivers the body in one piece.
\<close>

definition long_key_header :: "byte list" where
  "long_key_header =
     [0x80, 0x03, 0xff, 0xf8, 0x08, 0x00, 0x00, 0x00, 0x00, 0x01, 0x00, 0x00,
      0x00, 0x00, 0x00, 0x2a, 0x00, 0x00, 0x00, 0x00, 0x00, 0x00, 0x00, 0x00]"

definition long_key_request :: RequestHeader where
  "long_key_request =
     \<lparr>reqMagic = 0x80, reqOpcode = 0x03, reqKeyLength = 65528, reqExtraLength = 8,
      reqDataType = 0, reqVBucketID = 0, reqTotalBodyLength = 65536, reqOpaque = 42,
      reqCAS = 0\<rparr>"

definition long_key_body :: "byte list" where
  "long_key_body = replicate 65536 0"

definition long_key_ctx :: ConnectionContext where
  "long_key_ctx =
     \<lparr>RW = \<lparr>rd = [long_key_body], wr = [], wr_room = None\<rparr>, ReadBuf = replicate 4096 0\<rparr>"

definition long_key_ctx_read :: ConnectionContext where
  "long_key_ctx_read = \<lparr>RW = \<lparr>rd = [], wr = [], wr_room = None\<rparr>, ReadBuf = long_key_body\<rparr>"

section \<open>Properties\<close>

subsection \<open>Big-endian decoding and the request header\<close>

lemma list24:
  assumes "length (buf :: 'a list) = 24"
  obtains b0 b1 b2 b3 b4 b5 b6 b7 b8 b9 b10 b11 b12 b13 b14 b15 b16 b17 b18 b19 b20 b21 b22 b23
  where "buf = [b0, b1, b2, b3, b4, b5, b6, b7, b8, b9, b10, b11, b12, b13, b14, b15,
       b16, b17, b18, b19, b20, b21, b22, b23]"
  using assms by (auto simp: numeral_eq_Suc length_Suc_conv)

lemma nth16_0: "GetNthByteFromUint16 v 0 = ucast (drop_bit 8 v)"
  by (simp add: GetNthByteFromUint16_def)

lemma nth16_1: "GetNthByteFromUint16 v (Suc 0) = ucast v"
proof -
  have m: "(0xff :: uint16) = mask 8" by (simp add: mask_eq_exp_minus_1)
  show ?thesis
    unfolding GetNthByteFromUint16_def m
    by (simp) (rule bit_word_eqI, auto simp: bit_simps)
qed

lemma nth32: "map (GetNthByteFromUint32 v) [0, 1, 2, 3] =
   [ucast (drop_bit 24 v), ucast (drop_bit 16 v), ucast (drop_bit 8 v), ucast v]"
proof -
  have m: "(0xffff :: uint32) = mask 16" by (simp add: mask_eq_exp_minus_1)
  have m8: "(0xff :: uint16) = mask 8" by (simp add: mask_eq_exp_minus_1)
  have a: "(ucast (drop_bit 8 (ucast (drop_bit 16 v) :: uint16)) :: byte) = ucast (drop_bit 24 v)"
    by (rule bit_word_eqI) (auto simp: bit_simps)
  have b: "(ucast ((ucast (drop_bit 16 v) :: uint16) AND mask 8) :: byte) = ucast (drop_bit 16 v)"
    by (rule bit_word_eqI) (auto simp: bit_simps)
  have c: "(ucast (drop_bit 8 (ucast (v AND mask 16) :: uint16)) :: byte) = ucast (drop_bit 8 v)"
    by (rule bit_word_eqI) (auto simp: bit_simps)
  have d: "(ucast ((ucast (v AND mask 16) :: uint16) AND mask 8) :: byte) = ucast v"
    by (rule bit_word_eqI) (auto simp: bit_simps)
  show ?thesis
    unfolding GetNthByteFromUint32_def GetNthByteFromUint16_def m m8
    by (simp add: a b c d Let_def)
qed

lemmas Op_defs =
  OpGet_def OpSet_def OpAdd_def OpReplace_def OpQuit_def OpGetQ_def OpNoOp_def
  OpVersion_def OpGetK_def OpGetKQ_def OpSetQ_def OpAddQ_def OpReplaceQ_def

lemma OpHandler_None_iff: "OpHandler op = None \<longleftrightarrow> op \<notin> known_opcodes"
  by (simp add: OpHandler_def Op_defs known_opcodes_def)

lemma or_plus16: "push_bit 8 (ucast (a::byte)) OR ucast (b::byte) = (push_bit 8 (ucast a) + ucast b :: uint16)"
  using word_cat_eq_push_bit_or[of a b, where 'c=16] word_cat_eq[of a b, where 'c=16] by simp

lemma unat_be16: "unat (push_bit 8 (ucast (a::byte)) OR ucast (b::byte) :: uint16) = unat a * 256 + unat b"
proof -
  have a: "unat a < 256" using unsigned_less[of a, where 'a=nat] by simp
  have b: "unat b < 256" using unsigned_less[of b, where 'a=nat] by simp
  show ?thesis
    unfolding or_plus16 using a b
    by (simp add: unat_word_ariths push_bit_eq_mult unsigned_ucast_eq take_bit_nat_eq_self)
qed

lemma or_plus32: "push_bit 16 (ucast (a::uint16)) OR ucast (b::uint16) = (push_bit 16 (ucast a) + ucast b :: uint32)"
  using word_cat_eq_push_bit_or[of a b, where 'c=32] word_cat_eq[of a b, where 'c=32] by simp

lemma unat_be32: "unat (push_bit 16 (ucast (a::uint16)) OR ucast (b::uint16) :: uint32) = unat a * 65536 + unat b"
proof -
  have a: "unat a < 65536" using unsigned_less[of a, where 'a=nat] by simp
  have b: "unat b < 65536" using unsigned_less[of b, where 'a=nat] by simp
  show ?thesis
    unfolding or_plus32 using a b
    by (simp add: unat_word_ariths push_bit_eq_mult unsigned_ucast_eq take_bit_nat_eq_self)
qed

lemma or_plus64: "push_bit 32 (ucast (a::uint32)) OR ucast (b::uint32) = (push_bit 32 (ucast a) + ucast b :: uint64)"
  using word_cat_eq_push_bit_or[of a b, where 'c=64] word_cat_eq[of a b, where 'c=64] by simp

lemma unat_be64: "unat (push_bit 32 (ucast (a::uint32)) OR ucast (b::uint32) :: uint64) = unat a * 4294967296 + unat b"
proof -
  have a: "unat a < 4294967296" using unsigned_less[of a, where 'a=nat] by simp
  have b: "unat b < 4294967296" using unsigned_less[of b, where 'a=nat] by simp
  show ?thesis
    unfolding or_plus64 using a b
    by (simp add: unat_word_ariths push_bit_eq_mult unsigned_ucast_eq take_bit_nat_eq_self)
qed

lemma GetUint16_Cons: "GetUint16 (a # b # r) = Inr (push_bit 8 (ucast a) OR ucast b)"
  by (simp add: GetUint16_def)

lemma GetUint32_Cons:
  "GetUint32 (a # b # c # d # r) =
     Inr (push_bit 16 (ucast (push_bit 8 (ucast a) OR ucast b :: uint16))
          OR ucast (push_bit 8 (ucast c) OR ucast d :: uint16))"
  by (simp add: GetUint32_def GetUint16_Cons andThen_def)

lemma GetUint64_Cons:
  "GetUint64 (a # b # c # d # e # f # g # h # r) =
     Inr (push_bit 32 (ucast (push_bit 16 (ucast (push_bit 8 (ucast a) OR ucast b :: uint16))
                              OR ucast (push_bit 8 (ucast c) OR ucast d :: uint16) :: uint32))
          OR ucast (push_bit 16 (ucast (push_bit 8 (ucast e) OR ucast f :: uint16))
                    OR ucast (push_bit 8 (ucast g) OR ucast h :: uint16) :: uint32))"
  by (simp add: GetUint64_def GetUint32_Cons andThen_def)

lemma GetUint16_be: "GetUint16 (a # b # r) = Inr v \<Longrightarrow> unat v = be_nat [a, b]"
  by (auto simp: GetUint16_Cons unat_be16 be_nat_def)

lemma GetUint32_be: "GetUint32 (a # b # c # d # r) = Inr v \<Longrightarrow> unat v = be_nat [a, b, c, d]"
  by (auto simp: GetUint32_Cons unat_be16 unat_be32 be_nat_def)

lemma GetUint64_be:
  "GetUint64 (a # b # c # d # e # f # g # h # r) = Inr v \<Longrightarrow> unat v = be_nat [a, b, c, d, e, f, g, h]"
  by (auto simp: GetUint64_Cons unat_be16 unat_be32 unat_be64 be_nat_def)

lemma len_check:
  "((ucast (t::uint32) :: uint64) < ucast (k::uint16) + ucast (e::byte)) = (unat t < unat k + unat e)"
proof -
  have k: "unat k < 65536" using unsigned_less[of k, where 'a=nat] by simp
  have e: "unat e < 256" using unsigned_less[of e, where 'a=nat] by simp
  have t: "unat t < 4294967296" using unsigned_less[of t, where 'a=nat] by simp
  show ?thesis using k e t
    by (simp add: word_less_nat_alt unat_word_ariths unsigned_ucast_eq take_bit_nat_eq_self)
qed

lemma parse24:
  "parseRequestHeader [b0, b1, b2, b3, b4, b5, b6, b7, b8, b9, b10, b11, b12, b13, b14, b15,
       b16, b17, b18, b19, b20, b21, b22, b23] =
   (if b0 \<noteq> 0x80 then Inl (ErrMagic b0)
    else if b1 \<notin> known_opcodes then Inl (ErrOpcode b1)
    else if b5 \<noteq> 0 then Inl (ErrDataType b5)
    else case (GetUint16 [b2, b3], GetUint16 [b6, b7], GetUint32 [b8, b9, b10, b11],
               GetUint32 [b12, b13, b14, b15], GetUint64 [b16, b17, b18, b19, b20, b21, b22, b23]) of
      (Inr k, Inr vb, Inr t, Inr opq, Inr cas) \<Rightarrow>
         if unat t < unat k + unat b4 then Inl (ErrBodyLength t k b4)
         else Inr \<lparr>reqMagic = b0, reqOpcode = b1, reqKeyLength = k, reqExtraLength = b4,
                  reqDataType = b5, reqVBucketID = vb, reqTotalBodyLength = t,
                  reqOpaque = opq, reqCAS = cas\<rparr>
      | _ \<Rightarrow> Inl Panic)"
  by (simp add: parseRequestHeader_def OpHandler_None_iff MagicRequest_def Let_def
      GetUint16_Cons GetUint32_Cons GetUint64_Cons andThen_def len_check)

text \<open>
  Claim C7. On a 24-byte input \<open>parseRequestHeader\<close> returns an error exactly when
  the magic byte is not 0x80, or the opcode is none of the 13 opcodes of the dispatch
  table, or the data type is not 0x00, or the total body length is below key length
  plus extra length; and when it succeeds every field of the header is the big-endian
  value of its bytes: magic 0, opcode 1, key length 2-3, extra length 4, data type 5,
  vbucket id 6-7, total body length 8-11, opaque 12-15, CAS 16-23.
\<close>

theorem parseRequestHeader_validation:
  assumes "length buf = 24"
  shows "((\<exists>e. parseRequestHeader buf = Inl e) \<longleftrightarrow>
            (buf ! 0 \<noteq> 0x80 \<or> buf ! 1 \<notin> known_opcodes \<or> buf ! 5 \<noteq> 0x00 \<or>
             be_nat (take 4 (drop 8 buf)) < be_nat (take 2 (drop 2 buf)) + unat (buf ! 4)))
       \<and> (\<forall>h. parseRequestHeader buf = Inr h \<longrightarrow>
            reqMagic h = buf ! 0 \<and> reqOpcode h = buf ! 1 \<and>
            unat (reqKeyLength h) = be_nat (take 2 (drop 2 buf)) \<and>
            reqExtraLength h = buf ! 4 \<and> reqDataType h = buf ! 5 \<and>
            unat (reqVBucketID h) = be_nat (take 2 (drop 6 buf)) \<and>
            unat (reqTotalBodyLength h) = be_nat (take 4 (drop 8 buf)) \<and>
            unat (reqOpaque h) = be_nat (take 4 (drop 12 buf)) \<and>
            unat (reqCAS h) = be_nat (take 8 (drop 16 buf)))"
proof -
  obtain b0 b1 b2 b3 b4 b5 b6 b7 b8 b9 b10 b11 b12 b13 b14 b15
      b16 b17 b18 b19 b20 b21 b22 b23
    where buf: "buf = [b0, b1, b2, b3, b4, b5, b6, b7, b8, b9, b10, b11, b12, b13, b14, b15,
       b16, b17, b18, b19, b20, b21, b22, b23]"
    by (rule list24 [OF assms])
  obtain k where k: "GetUint16 [b2, b3] = Inr k" by (simp add: GetUint16_Cons)
  obtain vb where vb: "GetUint16 [b6, b7] = Inr vb" by (simp add: GetUint16_Cons)
  obtain t where t: "GetUint32 [b8, b9, b10, b11] = Inr t" by (simp add: GetUint32_Cons)
  obtain opq where opq: "GetUint32 [b12, b13, b14, b15] = Inr opq" by (simp add: GetUint32_Cons)
  obtain cas where cas: "GetUint64 [b16, b17, b18, b19, b20, b21, b22, b23] = Inr cas"
    by (simp add: GetUint64_Cons)
  note be = GetUint16_be [OF k] GetUint16_be [OF vb] GetUint32_be [OF t] GetUint32_be [OF opq]
    GetUint64_be [OF cas]
  have p: "parseRequestHeader buf =
     (if b0 \<noteq> 0x80 then Inl (ErrMagic b0)
      else if b1 \<notin> known_opcodes then Inl (ErrOpcode b1)
      else if b5 \<noteq> 0 then Inl (ErrDataType b5)
      else if unat t < unat k + unat b4 then Inl (ErrBodyLength t k b4)
      else Inr \<lparr>reqMagic = b0, reqOpcode = b1, reqKeyLength = k, reqExtraLength = b4,
                  reqDataType = b5, reqVBucketID = vb, reqTotalBodyLength = t,
                  reqOpaque = opq, reqCAS = cas\<rparr>)"
    unfolding buf parse24 by (simp add: k vb t opq cas)
  have sel: "buf ! 0 = b0" "buf ! 1 = b1" "buf ! 4 = b4" "buf ! 5 = b5"
    "take 2 (drop 2 buf) = [b2, b3]" "take 2 (drop 6 buf) = [b6, b7]"
    "take 4 (drop 8 buf) = [b8, b9, b10, b11]" "take 4 (drop 12 buf) = [b12, b13, b14, b15]"
    "take 8 (drop 16 buf) = [b16, b17, b18, b19, b20, b21, b22, b23]"
    by (simp_all add: buf)
  show ?thesis
    unfolding sel p be [symmetric] by auto
qed

text \<open>A GetK request header for a 5-byte key parses, with the fields read off its
  bytes.\<close>

theorem parseRequestHeader_validation_witness:
  "length example_request = 24 \<and>
   (\<exists>h. parseRequestHeader example_request = Inr h \<and> reqMagic h = 0x80 \<and>
      reqOpcode h = OpGetK \<and> unat (reqKeyLength h) = 5 \<and> unat (reqTotalBodyLength h) = 5 \<and>
      unat (reqOpaque h) = 3735928559 \<and> unat (reqCAS h) = 258)"
proof -
  have len: "length example_request = 24" by (simp add: example_request_def)
  note spec = parseRequestHeader_validation [OF len]
  have "\<not> (example_request ! 0 \<noteq> 0x80 \<or> example_request ! 1 \<notin> known_opcodes \<or>
           example_request ! 5 \<noteq> 0x00 \<or>
           be_nat (take 4 (drop 8 example_request))
             < be_nat (take 2 (drop 2 example_request)) + unat (example_request ! 4))"
    by (simp add: example_request_def known_opcodes_def be_nat_def)
  with spec have "\<not> (\<exists>e. parseRequestHeader example_request = Inl e)" by blast
  then obtain h where h: "parseRequestHeader example_request = Inr h"
    by (cases "parseRequestHeader example_request") auto
  with spec have "reqMagic h = example_request ! 0 \<and> reqOpcode h = example_request ! 1 \<and>
      unat (reqKeyLength h) = be_nat (take 2 (drop 2 example_request)) \<and>
      unat (reqTotalBodyLength h) = be_nat (take 4 (drop 8 example_request)) \<and>
      unat (reqOpaque h) = be_nat (take 4 (drop 12 example_request)) \<and>
      unat (reqCAS h) = be_nat (take 8 (drop 16 example_request))"
    by blast
  then have "reqMagic h = 0x80 \<and> reqOpcode h = OpGetK \<and> unat (reqKeyLength h) = 5 \<and>
      unat (reqTotalBodyLength h) = 5 \<and> unat (reqOpaque h) = 3735928559 \<and> unat (reqCAS h) = 258"
    by (simp add: example_request_def be_nat_def OpGetK_def)
  with len h show ?thesis by blast
qed

subsection \<open>Writing to the connection and the response header\<close>

lemma written_Nil: "written rw [] = rw"
  by (cases "wr_room rw") (simp_all add: written_def option.map_ident)

lemma written_written: "written (written rw a) b = written rw (a @ b)"
  by (cases "wr_room rw") (simp_all add: written_def)

lemma can_write_written:
  "can_write rw (length a) \<Longrightarrow> can_write (written rw a) n = can_write rw (length a + n)"
  by (cases "wr_room rw") (auto simp: written_def can_write_def)

lemma can_write_less: "can_write rw (m + n) \<Longrightarrow> can_write rw m"
  by (cases "wr_room rw") (auto simp: can_write_def)

lemma emit_Nil: "emit rw [] = Inr rw"
  by (cases "wr_room rw") (simp_all add: emit_def written_Nil can_write_def)

lemma emit_emit:
  "andThen (emit rw a) (\<lambda>rw. andThen (emit rw b) g) = andThen (emit rw (a @ b)) g"
proof (cases "can_write rw (length a)")
  case True
  then show ?thesis
    by (simp add: emit_def andThen_def can_write_written written_written)
next
  case False
  then have "\<not> can_write rw (length a + length b)" using can_write_less by blast
  with False show ?thesis by (simp add: emit_def andThen_def)
qed

lemma emit_emit2: "andThen (emit rw a) (\<lambda>rw. emit rw b) = emit rw (a @ b)"
proof -
  have "andThen (emit rw a) (\<lambda>rw. andThen (emit rw b) Inr) = andThen (emit rw (a @ b)) Inr"
    by (rule emit_emit)
  moreover have "\<And>m :: error + ReadWriter. andThen m Inr = m"
    by (simp add: andThen_def split: sum.splits)
  ultimately show ?thesis by simp
qed

lemma WriteByte_emit: "WriteByte rw c = emit rw [c]"
  by (simp add: WriteByte_def emit_def)

lemma WriteByte_for_emit: "WriteByte_for xs f rw = emit rw (map f xs)"
proof (induction xs arbitrary: rw)
  case Nil
  show ?case by (simp add: emit_Nil)
next
  case (Cons x xs)
  have "WriteByte_for xs f = (\<lambda>rw. emit rw (map f xs))"
    by (rule ext) (rule Cons.IH)
  then have "WriteByte_for (x # xs) f rw = andThen (emit rw [f x]) (\<lambda>rw. emit rw (map f xs))"
    by (simp add: WriteByte_emit)
  then show ?case by (simp add: emit_emit2)
qed

lemma write_loop_emit: "write_loop rw buf = emit rw buf"
proof (cases "buf = []")
  case True
  then show ?thesis by (simp add: write_loop.simps emit_Nil)
next
  case False
  then have "write_loop rw buf =
      (case Write rw buf of Inl err \<Rightarrow> Inl err | Inr (n, rw') \<Rightarrow> write_loop rw' (drop n buf))"
    by (subst write_loop.simps) simp
  also have "\<dots> = emit rw buf"
    by (simp add: Write_def emit_def write_loop.simps)
  finally show ?thesis .
qed

lemma cas_bytes:
  fixes c :: uint64
  shows "(ucast (drop_bit 24 (ucast (drop_bit 32 c) :: uint32)) :: byte) = ucast (drop_bit 56 c)"
    and "(ucast (drop_bit 16 (ucast (drop_bit 32 c) :: uint32)) :: byte) = ucast (drop_bit 48 c)"
    and "(ucast (drop_bit 8 (ucast (drop_bit 32 c) :: uint32)) :: byte) = ucast (drop_bit 40 c)"
    and "(ucast (ucast (drop_bit 32 c) :: uint32) :: byte) = ucast (drop_bit 32 c)"
    and "(ucast (drop_bit 24 (ucast (c AND mask 32) :: uint32)) :: byte) = ucast (drop_bit 24 c)"
    and "(ucast (drop_bit 16 (ucast (c AND mask 32) :: uint32)) :: byte) = ucast (drop_bit 16 c)"
    and "(ucast (drop_bit 8 (ucast (c AND mask 32) :: uint32)) :: byte) = ucast (drop_bit 8 c)"
    and "(ucast (ucast (c AND mask 32) :: uint32) :: byte) = ucast c"
  by (rule bit_word_eqI, auto simp: bit_simps)+

lemma writeResponseHeader_emit: "writeResponseHeader h rw = emit rw (responseHeaderBytes h)"
proof -
  have m: "(0xffffffff :: uint64) = mask 32" by (simp add: mask_eq_exp_minus_1)
  show ?thesis
    unfolding writeResponseHeader_def Let_def WriteByte_emit WriteByte_for_emit nth32 nth16_0 m
    by (simp add: emit_emit emit_emit2 nth16_1 responseHeaderBytes_def cas_bytes)
qed

lemma roundtrip16:
  "push_bit 8 (ucast (ucast (drop_bit 8 v) :: byte)) OR ucast (ucast v :: byte) = (v :: uint16)"
  by (rule bit_word_eqI) (auto simp: bit_simps)

lemma roundtrip32:
  "push_bit 16 (ucast (push_bit 8 (ucast (ucast (drop_bit 24 v) :: byte))
                       OR ucast (ucast (drop_bit 16 v) :: byte) :: uint16))
   OR ucast (push_bit 8 (ucast (ucast (drop_bit 8 v) :: byte))
             OR ucast (ucast v :: byte) :: uint16) = (v :: uint32)"
proof -
  have a: "push_bit 8 (ucast (ucast (drop_bit 24 v) :: byte)) OR ucast (ucast (drop_bit 16 v) :: byte)
           = (ucast (drop_bit 16 v) :: uint16)"
    by (rule bit_word_eqI) (auto simp: bit_simps)
  have b: "push_bit 8 (ucast (ucast (drop_bit 8 v) :: byte)) OR ucast (ucast v :: byte)
           = (ucast v :: uint16)"
    by (rule bit_word_eqI) (auto simp: bit_simps)
  have c: "push_bit 16 (ucast (ucast (drop_bit 16 v) :: uint16)) OR ucast (ucast v :: uint16) = v"
    by (rule bit_word_eqI) (auto simp: bit_simps)
  show ?thesis unfolding a b by (rule c)
qed

lemma roundtrip64:
  "push_bit 32 (ucast (push_bit 16 (ucast (push_bit 8 (ucast (ucast (drop_bit 56 v) :: byte))
                       OR ucast (ucast (drop_bit 48 v) :: byte) :: uint16))
     OR ucast (push_bit 8 (ucast (ucast (drop_bit 40 v) :: byte))
             OR ucast (ucast (drop_bit 32 v) :: byte) :: uint16) :: uint32))
   OR ucast (push_bit 16 (ucast (push_bit 8 (ucast (ucast (drop_bit 24 v) :: byte))
                       OR ucast (ucast (drop_bit 16 v) :: byte) :: uint16))
     OR ucast (push_bit 8 (ucast (ucast (drop_bit 8 v) :: byte))
             OR ucast (ucast v :: byte) :: uint16) :: uint32) = (v :: uint64)"
proof -
  have a: "push_bit 8 (ucast (ucast (drop_bit 56 v) :: byte)) OR ucast (ucast (drop_bit 48 v) :: byte)
           = (ucast (drop_bit 48 v) :: uint16)"
    by (rule bit_word_eqI) (auto simp: bit_simps)
  have b: "push_bit 8 (ucast (ucast (drop_bit 40 v) :: byte)) OR ucast (ucast (drop_bit 32 v) :: byte)
           = (ucast (drop_bit 32 v) :: uint16)"
    by (rule bit_word_eqI) (auto simp: bit_simps)
  have c: "push_bit 8 (ucast (ucast (drop_bit 24 v) :: byte)) OR ucast (ucast (drop_bit 16 v) :: byte)
           = (ucast (drop_bit 16 v) :: uint16)"
    by (rule bit_word_eqI) (auto simp: bit_simps)
  have d: "push_bit 8 (ucast (ucast (drop_bit 8 v) :: byte)) OR ucast (ucast v :: byte)
           = (ucast v :: uint16)"
    by (rule bit_word_eqI) (auto simp: bit_simps)
  have e: "push_bit 16 (ucast (ucast (drop_bit 48 v) :: uint16)) OR ucast (ucast (drop_bit 32 v) :: uint16)
           = (ucast (drop_bit 32 v) :: uint32)"
    by (rule bit_word_eqI) (auto simp: bit_simps)
  have f: "push_bit 16 (ucast (ucast (drop_bit 16 v) :: uint16)) OR ucast (ucast v :: uint16)
           = (ucast v :: uint32)"
    by (rule bit_word_eqI) (auto simp: bit_simps)
  have g: "push_bit 32 (ucast (ucast (drop_bit 32 v) :: uint32)) OR ucast (ucast v :: uint32) = v"
    by (rule bit_word_eqI) (auto simp: bit_simps)
  show ?thesis unfolding a b c d e f by (rule g)
qed

text \<open>
  Claim C9. \<open>writeResponseHeader\<close> writes 24 bytes (or fails when the connection
  does not take them), and decoding these bytes big-endian, with the decoders of
  \<open>utils.go\<close> as well as with \<open>be_nat\<close>, gives back every field of the header:
  byte 0 magic, 1 opcode, 2-3 key length, 4 extra length, 5 data type, 6-7 status,
  8-11 total body length, 12-15 opaque, 16-23 CAS.
\<close>

theorem writeResponseHeader_roundtrip:
  "writeResponseHeader h rw =
     (if can_write rw 24 then Inr (written rw (responseHeaderBytes h)) else Inl WriteError)
   \<and> length (responseHeaderBytes h) = 24
   \<and> responseHeaderBytes h ! 0 = respMagic h
   \<and> responseHeaderBytes h ! 1 = respOpcode h
   \<and> GetUint16 (drop 2 (responseHeaderBytes h)) = Inr (respKeyLength h)
   \<and> responseHeaderBytes h ! 4 = respExtraLength h
   \<and> responseHeaderBytes h ! 5 = respDataType h
   \<and> GetUint16 (drop 6 (responseHeaderBytes h)) = Inr (respStatus h)
   \<and> GetUint32 (drop 8 (responseHeaderBytes h)) = Inr (respTotalBodyLength h)
   \<and> GetUint32 (drop 12 (responseHeaderBytes h)) = Inr (respOpaque h)
   \<and> GetUint64 (drop 16 (responseHeaderBytes h)) = Inr (respCAS h)
   \<and> be_nat (take 2 (drop 2 (responseHeaderBytes h))) = unat (respKeyLength h)
   \<and> be_nat (take 2 (drop 6 (responseHeaderBytes h))) = unat (respStatus h)
   \<and> be_nat (take 4 (drop 8 (responseHeaderBytes h))) = unat (respTotalBodyLength h)
   \<and> be_nat (take 4 (drop 12 (responseHeaderBytes h))) = unat (respOpaque h)
   \<and> be_nat (take 8 (drop 16 (responseHeaderBytes h))) = unat (respCAS h)"
proof -
  have len: "length (responseHeaderBytes h) = 24"
    by (simp add: responseHeaderBytes_def)
  have w: "writeResponseHeader h rw =
     (if can_write rw 24 then Inr (written rw (responseHeaderBytes h)) else Inl WriteError)"
    by (simp add: writeResponseHeader_emit emit_def len)
  have k: "GetUint16 (drop 2 (responseHeaderBytes h)) = Inr (respKeyLength h)"
    by (simp add: responseHeaderBytes_def GetUint16_Cons roundtrip16)
  have st: "GetUint16 (drop 6 (responseHeaderBytes h)) = Inr (respStatus h)"
    by (simp add: responseHeaderBytes_def GetUint16_Cons roundtrip16)
  have t: "GetUint32 (drop 8 (responseHeaderBytes h)) = Inr (respTotalBodyLength h)"
    by (simp add: responseHeaderBytes_def GetUint32_Cons roundtrip32)
  have opq: "GetUint32 (drop 12 (responseHeaderBytes h)) = Inr (respOpaque h)"
    by (simp add: responseHeaderBytes_def GetUint32_Cons roundtrip32)
  have cas: "GetUint64 (drop 16 (responseHeaderBytes h)) = Inr (respCAS h)"
    by (simp add: responseHeaderBytes_def GetUint64_Cons roundtrip64)
  have bk: "be_nat (take 2 (drop 2 (responseHeaderBytes h))) = unat (respKeyLength h)"
    using k by (simp add: responseHeaderBytes_def GetUint16_be)
  have bst: "be_nat (take 2 (drop 6 (responseHeaderBytes h))) = unat (respStatus h)"
    using st by (simp add: responseHeaderBytes_def GetUint16_be)
  have bt: "be_nat (take 4 (drop 8 (responseHeaderBytes h))) = unat (respTotalBodyLength h)"
    using t by (simp add: responseHeaderBytes_def GetUint32_be)
  have bopq: "be_nat (take 4 (drop 12 (responseHeaderBytes h))) = unat (respOpaque h)"
    using opq by (simp add: responseHeaderBytes_def GetUint32_be)
  have bcas: "be_nat (take 8 (drop 16 (responseHeaderBytes h))) = unat (respCAS h)"
    using cas by (simp add: responseHeaderBytes_def GetUint64_be)
  have rest: "length (responseHeaderBytes h) = 24"
    "responseHeaderBytes h ! 0 = respMagic h" "responseHeaderBytes h ! 1 = respOpcode h"
    "responseHeaderBytes h ! 4 = respExtraLength h" "responseHeaderBytes h ! 5 = respDataType h"
    by (simp_all add: responseHeaderBytes_def)
  show ?thesis
    using w k st t opq cas bk bst bt bopq bcas rest by blast
qed

subsection \<open>The store primitives\<close>

lemma fresh_cas_nonzero: "fresh_cas c \<noteq> 0"
  by (simp add: fresh_cas_def)

lemma SetToSimpleKV_eq:
  "SetToSimpleKV key newVal cas replace s =
     (case set_or_replace key newVal cas replace s of
        (Not_found, s') \<Rightarrow> ((newVal, True, False), s')
      | (Cas_mismatch, s') \<Rightarrow> ((newVal, False, False), s')
      | (Stored e, s') \<Rightarrow> ((e, False, True), s'))"
  by (cases "simplekvMap s key")
     (simp_all add: SetToSimpleKV_def set_or_replace_def AddUint64_def store_entry_def
        fresh_cas_def Let_def)

lemma AddToSimpleKV_eq:
  "AddToSimpleKV key newVal s =
     (case add key newVal s of
        (Already_exists, s') \<Rightarrow> ((newVal, False), s')
      | (Added e, s') \<Rightarrow> ((e, True), s'))"
  by (cases "simplekvMap s key")
     (simp_all add: AddToSimpleKV_def add_def AddUint64_def store_entry_def
        fresh_cas_def Let_def)

text \<open>
  Claim C1. \<open>SetToSimpleKV\<close> is the three-step algorithm \<open>set_or_replace\<close> of the
  specification: not found for a missing key under replace-only; CAS mismatch for a
  present key whose CAS differs from a nonzero expected CAS; otherwise a fresh nonzero
  CAS is stamped into the candidate, which is stored under the key and returned. In
  particular a set with a nonzero expected CAS on a missing key inserts.
\<close>

theorem SetToSimpleKV_three_steps:
  "SetToSimpleKV key newVal cas replace s =
     (case set_or_replace key newVal cas replace s of
        (Not_found, s') \<Rightarrow> ((newVal, True, False), s')
      | (Cas_mismatch, s') \<Rightarrow> ((newVal, False, False), s')
      | (Stored e, s') \<Rightarrow> ((e, False, True), s'))
   \<and> fresh_cas (casID s) \<noteq> 0
   \<and> (simplekvMap s key = None \<longrightarrow> cas \<noteq> 0 \<longrightarrow>
        SetToSimpleKV key newVal cas False s =
          ((newVal\<lparr>CAS := fresh_cas (casID s)\<rparr>, False, True),
           s\<lparr>simplekvMap := (simplekvMap s)(key \<mapsto> newVal\<lparr>CAS := fresh_cas (casID s)\<rparr>),
             casID := fresh_cas (casID s)\<rparr>))"
proof -
  have "simplekvMap s key = None \<Longrightarrow>
        SetToSimpleKV key newVal cas False s =
          ((newVal\<lparr>CAS := fresh_cas (casID s)\<rparr>, False, True),
           s\<lparr>simplekvMap := (simplekvMap s)(key \<mapsto> newVal\<lparr>CAS := fresh_cas (casID s)\<rparr>),
             casID := fresh_cas (casID s)\<rparr>)"
    by (simp add: SetToSimpleKV_eq set_or_replace_def store_entry_def Let_def)
  then show ?thesis
    using SetToSimpleKV_eq fresh_cas_nonzero by blast
qed

text \<open>A set with expected CAS 5 of a key missing from the empty store inserts it with
  CAS 1.\<close>

theorem SetToSimpleKV_three_steps_witness:
  "simplekvMap store0 [0x6b] = None \<and> (5 :: uint64) \<noteq> 0 \<and>
   SetToSimpleKV [0x6b] example_value 5 False store0 =
     ((example_value\<lparr>CAS := 1\<rparr>, False, True),
      \<lparr>simplekvMap = [[0x6b] \<mapsto> example_value\<lparr>CAS := 1\<rparr>], casID = 1\<rparr>)"
proof -
  have absent: "simplekvMap store0 [0x6b] = None" by (simp add: store0_def)
  have nz: "(5 :: uint64) \<noteq> 0" by simp
  from SetToSimpleKV_three_steps [of "[0x6b]" example_value 5 False store0] absent nz
  have "SetToSimpleKV [0x6b] example_value 5 False store0 =
          ((example_value\<lparr>CAS := fresh_cas (casID store0)\<rparr>, False, True),
           store0\<lparr>simplekvMap :=
               (simplekvMap store0)([0x6b] \<mapsto> example_value\<lparr>CAS := fresh_cas (casID store0)\<rparr>),
             casID := fresh_cas (casID store0)\<rparr>)"
    by blast
  then show ?thesis
    using absent by (simp add: store0_def fresh_cas_def)
qed

text \<open>
  Claim C10. A failed mutation has no effect: when \<open>AddToSimpleKV\<close> fails (already
  exists) or \<open>SetToSimpleKV\<close> fails (not found, CAS mismatch), the state after the
  call, map and CAS counter, is the state before it.
\<close>

theorem failed_mutation_no_effect:
  "(\<not> snd (fst (AddToSimpleKV key newVal s)) \<longrightarrow> snd (AddToSimpleKV key newVal s) = s)
   \<and> (\<not> snd (snd (fst (SetToSimpleKV key newVal cas replace s)))
        \<longrightarrow> snd (SetToSimpleKV key newVal cas replace s) = s)
   \<and> (fst (add key newVal s) = Already_exists \<longrightarrow> snd (add key newVal s) = s)
   \<and> (fst (set_or_replace key newVal cas replace s) = Not_found
        \<longrightarrow> snd (set_or_replace key newVal cas replace s) = s)
   \<and> (fst (set_or_replace key newVal cas replace s) = Cas_mismatch
        \<longrightarrow> snd (set_or_replace key newVal cas replace s) = s)"
proof -
  have a: "fst (add key newVal s) = Already_exists \<Longrightarrow> snd (add key newVal s) = s"
    by (auto simp: add_def store_entry_def Let_def split: option.splits)
  have n: "fst (set_or_replace key newVal cas replace s) = Not_found
           \<Longrightarrow> snd (set_or_replace key newVal cas replace s) = s"
    by (auto simp: set_or_replace_def store_entry_def Let_def split: option.splits if_splits)
  have m: "fst (set_or_replace key newVal cas replace s) = Cas_mismatch
           \<Longrightarrow> snd (set_or_replace key newVal cas replace s) = s"
    by (auto simp: set_or_replace_def store_entry_def Let_def split: option.splits if_splits)
  have A: "\<not> snd (fst (AddToSimpleKV key newVal s)) \<Longrightarrow> snd (AddToSimpleKV key newVal s) = s"
    using a by (cases "add key newVal s") (auto simp: AddToSimpleKV_eq split: add_result.splits)
  have S: "\<not> snd (snd (fst (SetToSimpleKV key newVal cas replace s)))
           \<Longrightarrow> snd (SetToSimpleKV key newVal cas replace s) = s"
    using n m by (cases "set_or_replace key newVal cas replace s")
      (auto simp: SetToSimpleKV_eq split: set_result.splits)
  show ?thesis using a n m A S by blast
qed

text \<open>An add of a present key, a set with a wrong CAS and a replace of a missing key
  fail and leave the store as it was.\<close>

theorem failed_mutation_no_effect_witness:
  "\<not> snd (fst (AddToSimpleKV [0x6b] example_value example_store))
   \<and> snd (AddToSimpleKV [0x6b] example_value example_store) = example_store
   \<and> \<not> snd (snd (fst (SetToSimpleKV [0x6b] example_value 9 False example_store)))
   \<and> snd (SetToSimpleKV [0x6b] example_value 9 False example_store) = example_store
   \<and> fst (add [0x6b] example_value example_store) = Already_exists
   \<and> snd (add [0x6b] example_value example_store) = example_store
   \<and> fst (set_or_replace [0x6c] example_value 0 True example_store) = Not_found
   \<and> snd (set_or_replace [0x6c] example_value 0 True example_store) = example_store
   \<and> fst (set_or_replace [0x6b] example_value 9 False example_store) = Cas_mismatch
   \<and> snd (set_or_replace [0x6b] example_value 9 False example_store) = example_store"
proof -
  have 1: "\<not> snd (fst (AddToSimpleKV [0x6b] example_value example_store))"
    by (simp add: AddToSimpleKV_def example_store_def)
  have 2: "\<not> snd (snd (fst (SetToSimpleKV [0x6b] example_value 9 False example_store)))"
    by (simp add: SetToSimpleKV_def example_store_def example_value_def)
  have 3: "fst (add [0x6b] example_value example_store) = Already_exists"
    by (simp add: add_def example_store_def)
  have 4: "fst (set_or_replace [0x6c] example_value 0 True example_store) = Not_found"
    by (simp add: set_or_replace_def example_store_def)
  have 5: "fst (set_or_replace [0x6b] example_value 9 False example_store) = Cas_mismatch"
    by (simp add: set_or_replace_def example_store_def example_value_def)
  note a = failed_mutation_no_effect [of "[0x6b]" example_value example_store 9 False]
  note b = failed_mutation_no_effect [of "[0x6c]" example_value example_store 0 True]
  show ?thesis using 1 2 3 4 5 a b by blast
qed

subsection \<open>CAS values along a run of operations\<close>

lemma GetFromSimpleKV_state:
  "snd (GetFromSimpleKV key now s) = s \<or>
   snd (GetFromSimpleKV key now s) = s\<lparr>simplekvMap := (simplekvMap s)(key := None)\<rparr>"
  by (simp add: GetFromSimpleKV_def GetFromSimpleKV_locked_def Let_def split: option.splits)

lemma snd_store_entry:
  "snd (store_entry key v s) =
     s\<lparr>simplekvMap := (simplekvMap s)(key \<mapsto> v\<lparr>CAS := fresh_cas (casID s)\<rparr>),
       casID := fresh_cas (casID s)\<rparr>"
  by (simp add: store_entry_def Let_def)

lemma kv_step_DoAdd:
  "kv_step (DoAdd key v) s =
     (if simplekvMap s key = None then (Some (fresh_cas (casID s)), snd (store_entry key v s))
      else (None, s))"
  by (cases "simplekvMap s key")
     (simp_all add: AddToSimpleKV_eq add_def store_entry_def Let_def)

lemma kv_step_DoSet:
  "kv_step (DoSet key v cas replace) s =
     (if fst (set_or_replace key v cas replace s) \<in> {Not_found, Cas_mismatch} then (None, s)
      else (Some (fresh_cas (casID s)), snd (store_entry key v s)))"
  by (cases "simplekvMap s key")
     (simp_all add: SetToSimpleKV_eq set_or_replace_def store_entry_def Let_def)

lemma kv_step_cases:
  assumes "kv_step x s = (c, s')"
  shows "(c = None \<and> s' = s)
       \<or> (c = None \<and> (\<exists>key. s' = s\<lparr>simplekvMap := (simplekvMap s)(key := None)\<rparr>))
       \<or> (c = Some (fresh_cas (casID s)) \<and> (\<exists>key v. s' = snd (store_entry key v s)))"
proof (cases x)
  case (DoAdd key v)
  with assms show ?thesis
    unfolding DoAdd kv_step_DoAdd by (auto split: if_splits)
next
  case (DoSet key v cas replace)
  with assms show ?thesis
    unfolding DoSet kv_step_DoSet by (auto split: if_splits)
next
  case (DoGet key now)
  with assms GetFromSimpleKV_state [of key now s] show ?thesis by auto
qed

lemma cas_nonzero_step:
  assumes "cas_nonzero s" "kv_step x s = (c, s')"
  shows "cas_nonzero s'"
  using kv_step_cases [OF assms(2)] assms(1) fresh_cas_nonzero [of "casID s"]
  by (auto simp: cas_nonzero_def snd_store_entry split: if_splits)

lemma fresh_cas_no_wrap: "c + 1 \<noteq> 0 \<Longrightarrow> fresh_cas c = c + 1"
  by (simp add: fresh_cas_def)

lemma unat_inc: "(c :: uint64) + 1 \<noteq> 0 \<Longrightarrow> unat (c + 1) = unat c + 1"
  by (simp add: add.commute unatSuc)

lemma no_wrap: "unat (c :: uint64) < 2 ^ 64 - 1 \<Longrightarrow> c + 1 \<noteq> 0"
proof
  assume a: "unat c < 2 ^ 64 - 1" and "c + 1 = 0"
  then have "c = - 1" by (simp add: eq_neg_iff_add_eq_0)
  then have "unat c = 2 ^ 64 - 1"
    by (simp add: unsigned_minus_1_eq_mask mask_eq_exp_minus_1)
  with a show False by simp
qed

lemma step_inv:
  assumes b: "cas_below s" and u: "cas_unique s" and w: "unat (casID s) < 2 ^ 64 - 1"
    and st: "kv_step x s = (c, s')"
  shows "cas_below s' \<and> cas_unique s' \<and> unat (casID s) \<le> unat (casID s')
         \<and> unat (casID s') \<le> unat (casID s) + 1
         \<and> (\<forall>y. c = Some y \<longrightarrow> unat (casID s) < unat y \<and> y = casID s')"
proof -
  have nz: "casID s + 1 \<noteq> 0" using w by (rule no_wrap)
  have f: "fresh_cas (casID s) = casID s + 1" using nz by (rule fresh_cas_no_wrap)
  have un: "unat (casID s + 1) = unat (casID s) + 1" using nz by (rule unat_inc)
  from kv_step_cases [OF st] consider
      (same) "c = None" "s' = s"
    | (del) key where "c = None" "s' = s\<lparr>simplekvMap := (simplekvMap s)(key := None)\<rparr>"
    | (put) key v where "c = Some (fresh_cas (casID s))" "s' = snd (store_entry key v s)"
    by blast
  then show ?thesis
  proof cases
    case same
    with b u show ?thesis by simp
  next
    case del
    with b u show ?thesis
      by (auto simp: cas_below_def cas_unique_def split: if_splits)
  next
    case put
    have old: "\<And>k e. simplekvMap s k = Some e \<Longrightarrow> unat (CAS e) \<le> unat (casID s)"
      using b by (auto simp: cas_below_def word_le_nat_alt)
    have s': "s' = s\<lparr>simplekvMap := (simplekvMap s)(key \<mapsto> v\<lparr>CAS := casID s + 1\<rparr>),
                     casID := casID s + 1\<rparr>"
      using put(2) by (simp add: snd_store_entry f)
    have 1: "cas_below s'"
      unfolding cas_below_def s' using old un
      by (auto simp: word_le_nat_alt split: if_splits) (metis le_SucI)
    have 2: "cas_unique s'"
      unfolding cas_unique_def s' using old un u
      apply (auto simp: cas_unique_def split: if_splits)
      apply (metis Suc_n_not_le_n)
      apply (metis Suc_n_not_le_n)
      done
    show ?thesis using 1 2 put(1) un by (simp add: f s')
  qed
qed

lemma run_inv:
  assumes "cas_below s" "cas_unique s" "unat (casID s) + length xs < 2 ^ 64 - 1"
    "kv_run xs s = (cs, s')"
  shows "cas_below s' \<and> cas_unique s' \<and> unat (casID s') \<le> unat (casID s) + length xs
         \<and> sorted_wrt (<) cs \<and> (\<forall>y \<in> set cs. unat (casID s) < unat y)
         \<and> unat (casID s) \<le> unat (casID s')"
  using assms
proof (induction xs arbitrary: s cs s')
  case Nil
  then show ?case by simp
next
  case (Cons x xs)
  obtain c s1 where st: "kv_step x s = (c, s1)" by (cases "kv_step x s")
  obtain cs1 s2 where rn: "kv_run xs s1 = (cs1, s2)" by (cases "kv_run xs s1")
  have w: "unat (casID s) < 2 ^ 64 - 1" using Cons.prems(3) by simp
  note si = step_inv [OF Cons.prems(1,2) w st]
  have b1: "cas_below s1" and u1: "cas_unique s1" using si by blast+
  have le1: "unat (casID s) \<le> unat (casID s1)" and le2: "unat (casID s1) \<le> unat (casID s) + 1"
    using si by blast+
  have w1: "unat (casID s1) + length xs < 2 ^ 64 - 1" using le2 Cons.prems(3) by simp
  note ih = Cons.IH [OF b1 u1 w1 rn]
  have res: "s' = s2" "cs = (case c of None \<Rightarrow> cs1 | Some y \<Rightarrow> y # cs1)"
    using Cons.prems(4) st rn by simp_all
  have g1: "cas_below s' \<and> cas_unique s'" using ih res(1) by blast
  have g2: "unat (casID s') \<le> unat (casID s) + length (x # xs)"
    using ih le2 res(1) by simp
  have g3: "unat (casID s) \<le> unat (casID s')" using ih le1 res(1) by simp
  have tl: "\<forall>y \<in> set cs1. unat (casID s) < unat y" using ih le1 by auto
  have g4: "sorted_wrt (<) cs \<and> (\<forall>y \<in> set cs. unat (casID s) < unat y)"
  proof (cases c)
    case None
    with res ih tl show ?thesis by simp
  next
    case (Some y)
    with si have y: "unat (casID s) < unat y" "y = casID s1" by blast+
    have "\<forall>z \<in> set cs1. y < z" using ih y(2) by (simp add: word_less_nat_alt)
    with Some res ih tl y(1) show ?thesis by simp
  qed
  show ?case using g1 g2 g3 g4 by blast
qed

lemma store0_inv: "cas_below store0 \<and> cas_unique store0 \<and> cas_nonzero store0 \<and> unat (casID store0) = 0"
  by (simp add: store0_def cas_below_def cas_unique_def cas_nonzero_def)

lemma cas_nonzero_run:
  "cas_nonzero s \<Longrightarrow> kv_run xs s = (cs, s') \<Longrightarrow> cas_nonzero s' \<and> 0 \<notin> set cs"
proof (induction xs arbitrary: s cs s')
  case Nil
  then show ?case by simp
next
  case (Cons x xs)
  obtain c s1 where st: "kv_step x s = (c, s1)" by (cases "kv_step x s")
  obtain cs1 s2 where rn: "kv_run xs s1 = (cs1, s2)" by (cases "kv_run xs s1")
  have "cas_nonzero s1" using cas_nonzero_step [OF Cons.prems(1) st] .
  then have ih: "cas_nonzero s2 \<and> 0 \<notin> set cs1" using Cons.IH rn by blast
  have "c \<noteq> Some 0"
    using kv_step_cases [OF st] fresh_cas_nonzero [of "casID s"] by auto
  with ih Cons.prems(2) st rn show ?case by (auto split: option.splits)
qed

text \<open>
  Claim C8. Every operation of the store keeps "no live entry has CAS 0". A successful
  add, set or replace stamps the CAS obtained by one increment of the shared counter,
  and one more when that gave 0, which is nonzero and is the counter's new value. In a
  run from the empty store no stamped CAS is 0, and while the counter cannot have
  wrapped (fewer than \<open>2^64 - 1\<close> operations) the stamped CAS values are strictly
  increasing and distinct, and no two live entries share a CAS.
\<close>

theorem cas_nonzero_fresh_increasing:
  "(cas_nonzero s \<longrightarrow> cas_nonzero (snd (kv_step x s)))
   \<and> (\<forall>c. fst (kv_step x s) = Some c \<longrightarrow>
          c = fresh_cas (casID s) \<and> c \<noteq> 0 \<and> casID (snd (kv_step x s)) = c)
   \<and> fresh_cas (casID s) = (if casID s + 1 = 0 then casID s + 1 + 1 else casID s + 1)
   \<and> cas_nonzero (snd (kv_run xs store0))
   \<and> 0 \<notin> set (fst (kv_run xs store0))
   \<and> (length xs < 2 ^ 64 - 1 \<longrightarrow>
        sorted_wrt (<) (fst (kv_run xs store0)) \<and> distinct (fst (kv_run xs store0))
        \<and> cas_unique (snd (kv_run xs store0)))"
proof -
  obtain c s1 where st: "kv_step x s = (c, s1)" by (cases "kv_step x s")
  obtain cs s2 where rn: "kv_run xs store0 = (cs, s2)" by (cases "kv_run xs store0")
  have 1: "cas_nonzero s \<longrightarrow> cas_nonzero (snd (kv_step x s))"
    using cas_nonzero_step [OF _ st] st by simp
  have 2: "\<forall>c. fst (kv_step x s) = Some c \<longrightarrow>
          c = fresh_cas (casID s) \<and> c \<noteq> 0 \<and> casID (snd (kv_step x s)) = c"
    using kv_step_cases [OF st] st fresh_cas_nonzero [of "casID s"]
    by (auto simp: snd_store_entry)
  have 3: "fresh_cas (casID s) = (if casID s + 1 = 0 then casID s + 1 + 1 else casID s + 1)"
    by (simp add: fresh_cas_def)
  have 4: "cas_nonzero (snd (kv_run xs store0)) \<and> 0 \<notin> set (fst (kv_run xs store0))"
    using cas_nonzero_run [OF _ rn] store0_inv rn by simp
  have 5: "sorted_wrt (<) (fst (kv_run xs store0)) \<and> distinct (fst (kv_run xs store0))
        \<and> cas_unique (snd (kv_run xs store0))" if len: "length xs < 2 ^ 64 - 1"
  proof -
    have b: "cas_below store0" and u: "cas_unique store0" using store0_inv by blast+
    have w: "unat (casID store0) + length xs < 2 ^ 64 - 1" using store0_inv len by simp
    from run_inv [OF b u w rn] have "sorted_wrt (<) cs" "cas_unique s2" by blast+
    then show ?thesis using rn by (simp add: strict_sorted_iff)
  qed
  show ?thesis using 1 2 3 4 5 by blast
qed

text \<open>The run \<open>example_ops\<close> stamps the CAS values 1, 2, 3.\<close>

theorem cas_nonzero_fresh_increasing_witness:
  "cas_nonzero store0 \<and> length example_ops < 2 ^ 64 - 1
   \<and> fst (kv_step (DoAdd [0x6b] example_value) store0) = Some 1
   \<and> casID (snd (kv_step (DoAdd [0x6b] example_value) store0)) = 1
   \<and> cas_nonzero (snd (kv_step (DoAdd [0x6b] example_value) store0))
   \<and> fst (kv_run example_ops store0) = [1, 2, 3]
   \<and> sorted_wrt (<) (fst (kv_run example_ops store0))
   \<and> distinct (fst (kv_run example_ops store0))
   \<and> cas_unique (snd (kv_run example_ops store0))
   \<and> cas_nonzero (snd (kv_run example_ops store0))"
proof -
  note spec = cas_nonzero_fresh_increasing [of store0 "DoAdd [0x6b] example_value" example_ops]
  have h1: "cas_nonzero store0" using store0_inv by blast
  have h2: "length example_ops < 2 ^ 64 - 1" by (simp add: example_ops_def)
  have h3: "fst (kv_step (DoAdd [0x6b] example_value) store0) = Some 1"
    by (simp add: AddToSimpleKV_def AddUint64_def store0_def Let_def)
  have tr: "fst (kv_run example_ops store0) = [1, 2, 3]"
    by (simp add: example_ops_def AddToSimpleKV_def SetToSimpleKV_def GetFromSimpleKV_def
        GetFromSimpleKV_locked_def AddUint64_def store0_def example_value_def Let_def)
  from spec h3 have "casID (snd (kv_step (DoAdd [0x6b] example_value) store0)) = 1" by blast
  with spec h1 h2 h3 tr show ?thesis by blast
qed

subsection \<open>Expiry on lookup\<close>

text \<open>
  Claim C4. A lookup of an entry whose deadline is not 0 and below the clock deletes
  the entry and misses; a lookup of an entry with deadline 0, or with a deadline not
  yet passed, hits and returns it, leaving the store alone; a lookup touches no other
  key and not the counter. Under the exclusive lock the entry is deleted only when its
  CAS is the one seen under the shared lock; an entry replaced in between is kept.
  Add, set and replace remove no key and change no key but their own.
\<close>

theorem GetFromSimpleKV_lazy_expiry:
  "(simplekvMap s key = None \<longrightarrow> GetFromSimpleKV key now s = ((SimpleValue0, False), s))
   \<and> (\<forall>v. simplekvMap s key = Some v \<longrightarrow> TTL v \<noteq> 0 \<longrightarrow> TTL v < now \<longrightarrow>
          GetFromSimpleKV key now s =
            ((SimpleValue0, False), s\<lparr>simplekvMap := (simplekvMap s)(key := None)\<rparr>))
   \<and> (\<forall>v. simplekvMap s key = Some v \<longrightarrow> (TTL v = 0 \<or> now \<le> TTL v) \<longrightarrow>
          GetFromSimpleKV key now s = ((v, True), s))
   \<and> (\<forall>k. k \<noteq> key \<longrightarrow> simplekvMap (snd (GetFromSimpleKV key now s)) k = simplekvMap s k)
   \<and> casID (snd (GetFromSimpleKV key now s)) = casID s
   \<and> (\<forall>v'. simplekvMap s' key = Some v' \<longrightarrow> CAS v' = cas \<longrightarrow>
          GetFromSimpleKV_locked key cas s' =
            ((SimpleValue0, False), s'\<lparr>simplekvMap := (simplekvMap s')(key := None)\<rparr>))
   \<and> (\<forall>v'. simplekvMap s' key = Some v' \<longrightarrow> CAS v' \<noteq> cas \<longrightarrow>
          GetFromSimpleKV_locked key cas s' = ((v', True), s'))
   \<and> (simplekvMap s' key = None \<longrightarrow>
          GetFromSimpleKV_locked key cas s' = ((SimpleValue0, False), s'))
   \<and> dom (simplekvMap s) \<subseteq> dom (simplekvMap (snd (AddToSimpleKV key newVal s)))
   \<and> dom (simplekvMap s) \<subseteq> dom (simplekvMap (snd (SetToSimpleKV key newVal c replace s)))
   \<and> (\<forall>k. k \<noteq> key \<longrightarrow> simplekvMap (snd (AddToSimpleKV key newVal s)) k = simplekvMap s k)
   \<and> (\<forall>k. k \<noteq> key \<longrightarrow>
          simplekvMap (snd (SetToSimpleKV key newVal c replace s)) k = simplekvMap s k)"
proof -
  have g: "simplekvMap s key = None \<longrightarrow> GetFromSimpleKV key now s = ((SimpleValue0, False), s)"
    by (simp add: GetFromSimpleKV_def)
  have e: "\<forall>v. simplekvMap s key = Some v \<longrightarrow> TTL v \<noteq> 0 \<longrightarrow> TTL v < now \<longrightarrow>
          GetFromSimpleKV key now s =
            ((SimpleValue0, False), s\<lparr>simplekvMap := (simplekvMap s)(key := None)\<rparr>)"
    by (simp add: GetFromSimpleKV_def GetFromSimpleKV_locked_def Let_def)
  have h: "\<forall>v. simplekvMap s key = Some v \<longrightarrow> (TTL v = 0 \<or> now \<le> TTL v) \<longrightarrow>
          GetFromSimpleKV key now s = ((v, True), s)"
    by (auto simp: GetFromSimpleKV_def Let_def)
  have o: "\<forall>k. k \<noteq> key \<longrightarrow> simplekvMap (snd (GetFromSimpleKV key now s)) k = simplekvMap s k"
    using GetFromSimpleKV_state [of key now s] by auto
  have cnt: "casID (snd (GetFromSimpleKV key now s)) = casID s"
    using GetFromSimpleKV_state [of key now s] by auto
  have l1: "\<forall>v'. simplekvMap s' key = Some v' \<longrightarrow> CAS v' = cas \<longrightarrow>
          GetFromSimpleKV_locked key cas s' =
            ((SimpleValue0, False), s'\<lparr>simplekvMap := (simplekvMap s')(key := None)\<rparr>)"
    by (simp add: GetFromSimpleKV_locked_def)
  have l2: "\<forall>v'. simplekvMap s' key = Some v' \<longrightarrow> CAS v' \<noteq> cas \<longrightarrow>
          GetFromSimpleKV_locked key cas s' = ((v', True), s')"
    by (simp add: GetFromSimpleKV_locked_def)
  have l3: "simplekvMap s' key = None \<longrightarrow>
          GetFromSimpleKV_locked key cas s' = ((SimpleValue0, False), s')"
    by (simp add: GetFromSimpleKV_locked_def)
  have a: "snd (AddToSimpleKV key newVal s) = s
           \<or> snd (AddToSimpleKV key newVal s) = snd (store_entry key newVal s)"
    by (cases "simplekvMap s key")
       (simp_all add: AddToSimpleKV_eq add_def store_entry_def Let_def)
  have b: "snd (SetToSimpleKV key newVal c replace s) = s
           \<or> snd (SetToSimpleKV key newVal c replace s) = snd (store_entry key newVal s)"
    by (cases "simplekvMap s key")
       (simp_all add: SetToSimpleKV_eq set_or_replace_def store_entry_def Let_def)
  have d1: "dom (simplekvMap s) \<subseteq> dom (simplekvMap (snd (AddToSimpleKV key newVal s)))"
    using a by (auto simp: snd_store_entry)
  have d2: "dom (simplekvMap s) \<subseteq> dom (simplekvMap (snd (SetToSimpleKV key newVal c replace s)))"
    using b by (auto simp: snd_store_entry)
  have k1: "\<forall>k. k \<noteq> key \<longrightarrow> simplekvMap (snd (AddToSimpleKV key newVal s)) k = simplekvMap s k"
    using a by (auto simp: snd_store_entry)
  have k2: "\<forall>k. k \<noteq> key \<longrightarrow>
          simplekvMap (snd (SetToSimpleKV key newVal c replace s)) k = simplekvMap s k"
    using b by (auto simp: snd_store_entry)
  show ?thesis using g e h o cnt l1 l2 l3 d1 d2 k1 k2 by blast
qed

text \<open>At second 30 the entry of deadline 5 is deleted by its lookup; at second 3 it is
  returned; the entry without deadline is returned; an entry whose CAS is not the one
  seen before is kept by the locked part.\<close>

theorem GetFromSimpleKV_lazy_expiry_witness:
  "simplekvMap expiry_store [0x6b] = Some expiring_value
   \<and> TTL expiring_value \<noteq> 0 \<and> TTL expiring_value < 30
   \<and> GetFromSimpleKV [0x6b] 30 expiry_store =
       ((SimpleValue0, False),
        expiry_store\<lparr>simplekvMap := (simplekvMap expiry_store)([0x6b] := None)\<rparr>)
   \<and> simplekvMap (expiry_store\<lparr>simplekvMap := (simplekvMap expiry_store)([0x6b] := None)\<rparr>)
         [0x6b] = None
   \<and> GetFromSimpleKV [0x6b] 3 expiry_store = ((expiring_value, True), expiry_store)
   \<and> simplekvMap expiry_store [0x6c] = Some lasting_value \<and> TTL lasting_value = 0
   \<and> GetFromSimpleKV [0x6c] 30 expiry_store = ((lasting_value, True), expiry_store)
   \<and> GetFromSimpleKV_locked [0x6b] 9 expiry_store = ((expiring_value, True), expiry_store)"
proof -
  have m1: "simplekvMap expiry_store [0x6b] = Some expiring_value"
    by (simp add: expiry_store_def)
  have m2: "simplekvMap expiry_store [0x6c] = Some lasting_value"
    by (simp add: expiry_store_def)
  have t1: "TTL expiring_value \<noteq> 0" "TTL expiring_value < 30"
    "TTL expiring_value = 0 \<or> (3::int) \<le> TTL expiring_value"
    "CAS expiring_value \<noteq> 9"
    by (simp_all add: expiring_value_def)
  have t2: "TTL lasting_value = 0 \<or> (30::int) \<le> TTL lasting_value"
    and t3: "TTL lasting_value = 0"
    by (simp_all add: lasting_value_def)
  note a = GetFromSimpleKV_lazy_expiry [of expiry_store "[0x6b]" 30 expiry_store 9]
  note b = GetFromSimpleKV_lazy_expiry [of expiry_store "[0x6b]" 3]
  note c = GetFromSimpleKV_lazy_expiry [of expiry_store "[0x6c]" 30]
  note a2 = a [THEN conjunct2, THEN conjunct1, rule_format]
  note a7 = a [THEN conjunct2, THEN conjunct2, THEN conjunct2, THEN conjunct2, THEN conjunct2, THEN conjunct2, THEN conjunct1, rule_format]
  note b3 = b [THEN conjunct2, THEN conjunct2, THEN conjunct1, rule_format]
  note c3 = c [THEN conjunct2, THEN conjunct2, THEN conjunct1, rule_format]
  have r1: "GetFromSimpleKV [0x6b] 30 expiry_store =
       ((SimpleValue0, False),
        expiry_store\<lparr>simplekvMap := (simplekvMap expiry_store)([0x6b] := None)\<rparr>)"
    using m1 t1(1) t1(2) by (rule a2)
  have r2: "GetFromSimpleKV [0x6b] 3 expiry_store = ((expiring_value, True), expiry_store)"
    using m1 t1(3) by (rule b3)
  have r3: "GetFromSimpleKV [0x6c] 30 expiry_store = ((lasting_value, True), expiry_store)"
    using m2 t2 by (rule c3)
  have r4: "GetFromSimpleKV_locked [0x6b] 9 expiry_store = ((expiring_value, True), expiry_store)"
    using m1 t1(4) by (rule a7)
  have r5: "simplekvMap (expiry_store\<lparr>simplekvMap := (simplekvMap expiry_store)([0x6b] := None)\<rparr>)
         [0x6b] = None"
    by simp
  show ?thesis
    by (intro conjI m1 m2 t1(1) t1(2) t3 r1 r2 r3 r4 r5)
qed

subsection \<open>Reading the body of a request\<close>

lemma Read_props:
  assumes "Read rw n = Inr (bs, rw')"
  shows "length bs \<le> n" "concat (rd rw) = bs @ concat (rd rw')"
    "wr rw' = wr rw" "wr_room rw' = wr_room rw"
  using assms by (auto simp: Read_def split: list.splits if_splits)

lemma read_loop_props:
  "read_loop rw buf n = Inr (buf', rw') \<Longrightarrow> n \<le> length buf \<Longrightarrow>
     length buf' = length buf \<and> take n buf' = take n buf
     \<and> concat (rd rw) = drop n buf' @ concat (rd rw')
     \<and> wr rw' = wr rw \<and> wr_room rw' = wr_room rw"
proof (induction rw buf n arbitrary: buf' rw' rule: read_loop.induct)
  case (1 rw buf readLen)
  show ?case
  proof (cases "readLen < length buf")
    case False
    with "1.prems" show ?thesis by (simp add: read_loop.simps)
  next
    case True
    from True "1.prems"(1) obtain bs rw1 where
      r: "Read rw (length buf - readLen) = Inr (bs, rw1)"
      and l: "read_loop rw1 (take readLen buf @ bs @ drop (readLen + length bs) buf)
                (readLen + length bs) = Inr (buf', rw')"
      by (subst (asm) read_loop.simps) (auto split: sum.splits)
    note rp = Read_props [OF r]
    let ?b = "take readLen buf @ bs @ drop (readLen + length bs) buf"
    have len: "length ?b = length buf" using rp(1) True by simp
    have le: "readLen + length bs \<le> length ?b" using rp(1) True by simp
    note ih = "1.IH" [OF True r refl l le]
    have t: "take readLen buf' = take readLen buf"
    proof -
      have "take readLen buf' = take readLen (take (readLen + length bs) buf')"
        by (simp add: min_def)
      also have "\<dots> = take readLen (take (readLen + length bs) ?b)" using ih by simp
      also have "\<dots> = take readLen buf" using True by (simp add: min_def)
      finally show ?thesis .
    qed
    have mid: "take (length bs) (drop readLen buf') = bs"
    proof -
      have "take (length bs) (drop readLen buf') = drop readLen (take (readLen + length bs) buf')"
        by (simp add: drop_take)
      also have "\<dots> = drop readLen (take (readLen + length bs) ?b)" using ih by simp
      also have "\<dots> = bs" using True by simp
      finally show ?thesis .
    qed
    have "drop readLen buf' = take (length bs) (drop readLen buf') @ drop (length bs) (drop readLen buf')"
      by (simp only: append_take_drop_id)
    also have "\<dots> = bs @ drop (readLen + length bs) buf'" using mid by (simp add: add.commute)
    finally have d: "drop readLen buf' = bs @ drop (readLen + length bs) buf'" .
    have c: "concat (rd rw) = drop readLen buf' @ concat (rd rw')"
      using rp(2) ih d by simp
    show ?thesis using ih len t c rp by simp
  qed
qed

lemma grow_nsize_Some:
  "0 < n \<Longrightarrow> \<exists>m. grow_nsize n t = Some m \<and> t \<le> m \<and> 0 < m"
proof (induction "t - n" arbitrary: n rule: less_induct)
  case less
  show ?case
  proof (cases "n < t")
    case False
    then show ?thesis using less.prems by (subst grow_nsize.simps) simp
  next
    case True
    have "t - n * 2 < t - n" using True less.prems by simp
    from less.hyps [OF this] less.prems obtain m where
      "grow_nsize (n * 2) t = Some m \<and> t \<le> m \<and> 0 < m" by auto
    then show ?thesis using True by (subst grow_nsize.simps) simp
  qed
qed

lemma growReadBuf_returns: "ReadBuf ctx \<noteq> [] \<Longrightarrow> growReadBuf t ctx \<noteq> None"
proof -
  assume "ReadBuf ctx \<noteq> []"
  then have "0 < length (ReadBuf ctx)" by simp
  from grow_nsize_Some [OF this, of "unat t"] obtain m where
    "grow_nsize (length (ReadBuf ctx)) (unat t) = Some m" by blast
  then show ?thesis
    by (simp add: growReadBuf_def)
qed

lemma readBody_returns: "ReadBuf ctx \<noteq> [] \<Longrightarrow> readBody t ctx \<noteq> None"
  using growReadBuf_returns [of ctx t]
  by (auto simp: readBody_def split: option.splits sum.splits)

lemma growReadBuf_RW: "growReadBuf t ctx = Some (Inr c0) \<Longrightarrow> RW c0 = RW ctx"
  by (auto simp: growReadBuf_def split: if_splits option.splits)

lemma readBody_props:
  assumes "readBody t ctx = Some (Inr (buf, ctx1))"
  shows "length buf = unat t" "take (unat t) (ReadBuf ctx1) = buf"
    "concat (rd (RW ctx)) = buf @ concat (rd (RW ctx1))"
    "wr (RW ctx1) = wr (RW ctx)" "wr_room (RW ctx1) = wr_room (RW ctx)"
proof -
  from assms obtain c0 where g: "growReadBuf t ctx = Some (Inr c0)"
    by (auto simp: readBody_def split: option.splits sum.splits)
  from assms g obtain rw where
    c0: "unat t \<le> length (ReadBuf c0)"
    and rl: "read_loop (RW c0) (take (unat t) (ReadBuf c0)) 0 = Inr (buf, rw)"
    and c1: "ctx1 = c0\<lparr>RW := rw, ReadBuf := buf @ drop (unat t) (ReadBuf c0)\<rparr>"
    by (auto simp: readBody_def split: sum.splits if_splits)
  from read_loop_props [OF rl] c0 growReadBuf_RW [OF g] have
    p: "length buf = unat t" "concat (rd (RW ctx)) = buf @ concat (rd rw)"
      "wr rw = wr (RW ctx)" "wr_room rw = wr_room (RW ctx)"
    by simp_all
  show "length buf = unat t" by (rule p(1))
  show "take (unat t) (ReadBuf ctx1) = buf" using p(1) c1 by simp
  show "concat (rd (RW ctx)) = buf @ concat (rd (RW ctx1))" using p(2) c1 by simp
  show "wr (RW ctx1) = wr (RW ctx)" using p(3) c1 by simp
  show "wr_room (RW ctx1) = wr_room (RW ctx)" using p(4) c1 by simp
qed

lemma read_loop_one_piece:
  assumes "rd rw = [body]" "length body = length buf" "buf \<noteq> []"
  shows "read_loop rw buf 0 = Inr (body, rw\<lparr>rd := []\<rparr>)"
proof -
  have r: "Read rw (length buf) = Inr (body, rw\<lparr>rd := []\<rparr>)"
    using assms by (simp add: Read_def)
  have "read_loop rw buf 0 = read_loop (rw\<lparr>rd := []\<rparr>) body (length body)"
    using assms(3) r assms(2) by (subst read_loop.simps) simp
  also have "\<dots> = Inr (body, rw\<lparr>rd := []\<rparr>)"
    by (subst read_loop.simps) simp
  finally show ?thesis .
qed

lemma readBody_one_piece:
  assumes "rd (RW ctx) = [body]" "length body = unat t" "unat t \<le> length (ReadBuf ctx)"
    "length (ReadBuf ctx) < 2 ^ 32" "body \<noteq> []"
  shows "readBody t ctx =
     Some (Inr (body, ctx\<lparr>RW := (RW ctx)\<lparr>rd := []\<rparr>,
                         ReadBuf := body @ drop (unat t) (ReadBuf ctx)\<rparr>))"
proof -
  have "unat (word_of_nat (length (ReadBuf ctx)) :: uint32) = length (ReadBuf ctx)"
    using assms(4) by (simp add: unat_of_nat)
  then have "\<not> t > (word_of_nat (length (ReadBuf ctx)) :: uint32)"
    using assms(3) by (simp add: word_less_nat_alt)
  then have g: "growReadBuf t ctx = Some (Inr ctx)" by (simp add: growReadBuf_def)
  have pos: "0 < unat t" using assms(2,5) by (cases body) auto
  have "read_loop (RW ctx) (take (unat t) (ReadBuf ctx)) 0 = Inr (body, (RW ctx)\<lparr>rd := []\<rparr>)"
  proof (rule read_loop_one_piece)
    show "rd (RW ctx) = [body]" by (rule assms(1))
    show "length body = length (take (unat t) (ReadBuf ctx))" using assms(2,3) by simp
    show "take (unat t) (ReadBuf ctx) \<noteq> []" using pos assms(3) by auto
  qed
  then show ?thesis using g assms(3) by (simp add: readBody_def)
qed

subsection \<open>The GET family\<close>

lemma andThen_Inr [simp]: "andThen (Inr x) f = f x"
  by (simp add: andThen_def)

lemma andThen_Inl [simp]: "andThen (Inl e) f = Inl e"
  by (simp add: andThen_def)

lemma emit_ctx:
  "andThen (emit rw bs) (\<lambda>rw. Inr (ctx\<lparr>RW := rw\<rparr>)) =
     (if can_write rw (length bs) then Inr (ctx\<lparr>RW := written rw bs\<rparr>) else Inl WriteError)"
  by (simp add: emit_def)

lemma GetHandler_respond_miss:
  "GetHandler_respond h ctx key val False =
     (if reqOpcode h = 0x09 \<or> reqOpcode h = 0x0d then Inr ctx
      else andThen (writeResponseHeader
                  \<lparr>respMagic = 0x81, respOpcode = reqOpcode h, respKeyLength = 0,
                   respExtraLength = 0, respDataType = 0, respStatus = 0x0001,
                   respTotalBodyLength = 9, respOpaque = reqOpaque h, respCAS = 0\<rparr> (RW ctx))
            (\<lambda>rw. andThen (WriteByte_for (bytes_of ''Not found'') (\<lambda>c. c) rw)
            (\<lambda>rw. Inr (ctx\<lparr>RW := rw\<rparr>))))"
  by (simp add: GetHandler_respond_def Let_def ResponseHeader0_def
          MagicResponse_def CodeKeyNotFound_def OpGetQ_def OpGetKQ_def)

lemma GetHandler_respond_hit:
  assumes len: "length key = unat (reqKeyLength h)" and nz: "reqKeyLength h \<noteq> 0"
  shows "GetHandler_respond h ctx key val True =
     andThen (writeResponseHeader
                \<lparr>respMagic = 0x81, respOpcode = reqOpcode h,
                 respKeyLength =
                   (if reqOpcode h = 0x0c \<or> reqOpcode h = 0x0d then reqKeyLength h else 0),
                 respExtraLength = 4, respDataType = 0, respStatus = 0x0000,
                 respTotalBodyLength =
                   word_of_nat (length (RawData val)) + 4
                   + (if reqOpcode h = 0x0c \<or> reqOpcode h = 0x0d
                      then ucast (reqKeyLength h) else 0),
                 respOpaque = reqOpaque h, respCAS = CAS val\<rparr> (RW ctx))
       (\<lambda>rw. andThen (WriteByte_for [0, 1, 2, 3] (GetNthByteFromUint32 (Flag val)) rw)
       (\<lambda>rw. andThen (if reqOpcode h = 0x0c \<or> reqOpcode h = 0x0d
                        then write_loop rw key else Inr rw)
       (\<lambda>rw. andThen (write_loop rw (RawData val))
       (\<lambda>rw. Inr (ctx\<lparr>RW := rw\<rparr>)))))"
proof -
  have k: "(word_of_nat (length key) :: uint16) = reqKeyLength h" using len by simp
  have pos: "0 < reqKeyLength h" using nz by (simp add: word_greater_zero_iff)
  show ?thesis
  proof (cases "reqOpcode h = 0x0c \<or> reqOpcode h = 0x0d")
    case True
    then show ?thesis using pos
      by (simp add: GetHandler_respond_def Let_def ResponseHeader0_def
          MagicResponse_def CodeNoError_def OpGetK_def OpGetKQ_def k
          del: WriteByte_for.simps)
  next
    case False
    then show ?thesis
      by (simp add: GetHandler_respond_def Let_def ResponseHeader0_def
          MagicResponse_def CodeNoError_def OpGetK_def OpGetKQ_def
          del: WriteByte_for.simps)
  qed
qed

lemma emit_if:
  "andThen (if b then emit rw a else Inr rw) g = andThen (emit rw (if b then a else [])) g"
  by (simp add: emit_Nil)

lemma emit_ctx_Nil: "andThen (emit (RW ctx) []) (\<lambda>rw. Inr (ctx\<lparr>RW := rw\<rparr>)) = Inr ctx"
  by (simp add: emit_Nil)

lemma GetHandler_respond_eq_miss:
  "GetHandler_respond h ctx key val False =
     andThen (emit (RW ctx) (get_response h key (val, False))) (\<lambda>rw. Inr (ctx\<lparr>RW := rw\<rparr>))"
proof (cases "reqOpcode h = 0x09 \<or> reqOpcode h = 0x0d")
  case True
  then have "get_response h key (val, False) = []" by (auto simp: get_response_def)
  then show ?thesis using True by (simp only: GetHandler_respond_miss emit_ctx_Nil if_True)
next
  case False
  then have g: "get_response h key (val, False) = responseHeaderBytes
                  \<lparr>respMagic = 0x81, respOpcode = reqOpcode h, respKeyLength = 0,
                   respExtraLength = 0, respDataType = 0, respStatus = 0x0001,
                   respTotalBodyLength = 9, respOpaque = reqOpaque h, respCAS = 0\<rparr>
                @ bytes_of ''Not found''" by (simp add: get_response_def)
  show ?thesis using False
    by (simp only: GetHandler_respond_miss g if_False writeResponseHeader_emit
        WriteByte_for_emit emit_emit list.map_ident)
qed

lemma GetHandler_respond_eq_hit:
  assumes len: "length key = unat (reqKeyLength h)" and nz: "reqKeyLength h \<noteq> 0"
  shows "GetHandler_respond h ctx key val True =
     andThen (emit (RW ctx) (get_response h key (val, True))) (\<lambda>rw. Inr (ctx\<lparr>RW := rw\<rparr>))"
proof -
  let ?K = "reqOpcode h = 0x0c \<or> reqOpcode h = 0x0d"
  have k: "(word_of_nat (length key) :: uint16) = reqKeyLength h" using len by simp
  have u: "(word_of_nat (length key) :: uint32) = ucast (reqKeyLength h)" using len by simp
  have e1: "4 + word_of_nat (length key) + word_of_nat (length (RawData val))
            = word_of_nat (length (RawData val)) + 4 + (ucast (reqKeyLength h) :: uint32)"
    unfolding u by (simp add: ac_simps)
  have e0: "4 + word_of_nat (length (RawData val))
            = word_of_nat (length (RawData val)) + (4 :: uint32)"
    by (simp add: ac_simps)
  have g: "get_response h key (val, True) =
     responseHeaderBytes
                \<lparr>respMagic = 0x81, respOpcode = reqOpcode h,
                 respKeyLength = (if ?K then reqKeyLength h else 0),
                 respExtraLength = 4, respDataType = 0, respStatus = 0x0000,
                 respTotalBodyLength =
                   word_of_nat (length (RawData val)) + 4
                   + (if ?K then ucast (reqKeyLength h) else 0),
                 respOpaque = reqOpaque h, respCAS = CAS val\<rparr>
       @ be_bytes32 (Flag val) @ (if ?K then key else []) @ RawData val"
  proof (cases ?K)
    case True
    then show ?thesis by (simp add: get_response_def Let_def k e1)
  next
    case False
    then show ?thesis by (simp add: get_response_def Let_def e0)
  qed
  have f: "map (GetNthByteFromUint32 (Flag val)) [0, 1, 2, 3] = be_bytes32 (Flag val)"
    by (simp only: nth32 be_bytes32_def)
  show ?thesis
    by (simp only: GetHandler_respond_hit [OF len nz] g writeResponseHeader_emit
        WriteByte_for_emit write_loop_emit emit_if emit_emit f)
qed

lemma GetHandler_respond_eq:
  assumes len: "length key = unat (reqKeyLength h)" and nz: "reqKeyLength h \<noteq> 0"
  shows "GetHandler_respond h ctx key val ok =
           andThen (emit (RW ctx) (get_response h key (val, ok))) (\<lambda>rw. Inr (ctx\<lparr>RW := rw\<rparr>))"
  using GetHandler_respond_eq_miss [of h ctx key val] GetHandler_respond_eq_hit [OF len nz, of ctx val]
  by (cases ok) simp_all

text \<open>
  Claim C2. For a valid request of the GET family whose key has been read from the
  connection, \<open>GetHandler\<close> writes exactly the response \<open>get_response\<close> of the
  specification for the result of the lookup (or fails when the connection does not
  take it), and leaves the store as the lookup leaves it: nothing on a quiet miss;
  status \<open>KeyNotFound\<close> with the body "Not found" on another miss; on a hit
  status \<open>NoError\<close>, extra length 4, the entry's CAS, and the flag, the key (for
  GetK and GetKQ only) and the value as body. The key is as long as the header says.
\<close>

theorem GetHandler_response:
  assumes "reqOpcode h \<in> {OpGet, OpGetQ, OpGetK, OpGetKQ}"
    and "reqExtraLength h = 0" and "0 < reqKeyLength h"
    and "reqTotalBodyLength h = ucast (reqKeyLength h)"
    and "readBody (reqTotalBodyLength h) ctx = Some (Inr (key, ctx1))"
  shows "GetHandler h ctx now s =
           Some (if can_write (RW ctx1)
                      (length (get_response h key (fst (GetFromSimpleKV key now s))))
                 then Inr (ctx1\<lparr>RW := written (RW ctx1)
                                  (get_response h key (fst (GetFromSimpleKV key now s)))\<rparr>)
                 else Inl WriteError,
                 snd (GetFromSimpleKV key now s))
         \<and> length key = unat (reqKeyLength h)"
proof -
  have nz: "reqKeyLength h \<noteq> 0" using assms(3) by auto
  have "length key = unat (reqTotalBodyLength h)" using readBody_props(1) [OF assms(5)] .
  also have "\<dots> = unat (reqKeyLength h)"
    unfolding assms(4) by (simp add: unsigned_ucast_eq take_bit_nat_eq_self
        order_less_trans [OF unsigned_less [of "reqKeyLength h", where 'a=nat]])
  finally have len: "length key = unat (reqKeyLength h)" .
  obtain val ok s' where g: "GetFromSimpleKV key now s = ((val, ok), s')"
    by (cases "GetFromSimpleKV key now s") auto
  have "GetHandler h ctx now s = Some (GetHandler_respond h ctx1 key val ok, s')"
    using assms(2,4,5) nz g by (simp add: GetHandler_def)
  then show ?thesis
    using len g by (simp add: GetHandler_respond_eq [OF len nz] emit_ctx)
qed

lemma example_readBody:
  assumes "length body = unat t" "body \<noteq> []" "unat t \<le> 16"
  shows "readBody t (example_ctx body) = Some (Inr (body, example_ctx_after body []))"
proof -
  have "readBody t (example_ctx body) =
     Some (Inr (body, (example_ctx body)\<lparr>RW := (RW (example_ctx body))\<lparr>rd := []\<rparr>,
                         ReadBuf := body @ drop (unat t) (ReadBuf (example_ctx body))\<rparr>))"
    using assms by (intro readBody_one_piece) (simp_all add: example_ctx_def)
  then show ?thesis using assms by (simp add: example_ctx_def example_ctx_after_def)
qed

text \<open>GetK of a present key: the 24 bytes of the header, the flag, the key and the
  value are written.\<close>

theorem GetHandler_response_witness:
  "reqOpcode example_get \<in> {OpGet, OpGetQ, OpGetK, OpGetKQ}
   \<and> reqExtraLength example_get = 0 \<and> 0 < reqKeyLength example_get
   \<and> reqTotalBodyLength example_get = ucast (reqKeyLength example_get)
   \<and> readBody (reqTotalBodyLength example_get) (example_ctx [0x6b])
       = Some (Inr ([0x6b], example_ctx_after [0x6b] []))
   \<and> GetHandler example_get (example_ctx [0x6b]) 0 example_store =
       Some (Inr (example_ctx_after [0x6b]
               [0x81, 0x0c, 0x00, 0x01, 0x04, 0x00, 0x00, 0x00, 0x00, 0x00, 0x00, 0x07,
                0xde, 0xad, 0xbe, 0xef, 0x00, 0x00, 0x00, 0x00, 0x00, 0x00, 0x00, 0x01,
                0x00, 0x00, 0x00, 0x07, 0x6b, 0x57, 0x6f]), example_store)"
proof -
  have 1: "reqOpcode example_get \<in> {OpGet, OpGetQ, OpGetK, OpGetKQ}"
    by (simp add: example_get_def OpGetK_def)
  have 2: "reqExtraLength example_get = 0" by (simp add: example_get_def)
  have 3: "0 < reqKeyLength example_get" by (simp add: example_get_def)
  have 4: "reqTotalBodyLength example_get = ucast (reqKeyLength example_get)"
    by (simp add: example_get_def)
  have 5: "readBody (reqTotalBodyLength example_get) (example_ctx [0x6b])
       = Some (Inr ([0x6b], example_ctx_after [0x6b] []))"
    by (rule example_readBody) (simp_all add: example_get_def)
  have l: "GetFromSimpleKV [0x6b] 0 example_store = ((example_value\<lparr>CAS := 1\<rparr>, True), example_store)"
    by (simp add: GetFromSimpleKV_def example_store_def example_value_def)
  have r: "get_response example_get [0x6b] (example_value\<lparr>CAS := 1\<rparr>, True) =
               [0x81, 0x0c, 0x00, 0x01, 0x04, 0x00, 0x00, 0x00, 0x00, 0x00, 0x00, 0x07,
                0xde, 0xad, 0xbe, 0xef, 0x00, 0x00, 0x00, 0x00, 0x00, 0x00, 0x00, 0x01,
                0x00, 0x00, 0x00, 0x07, 0x6b, 0x57, 0x6f]"
    by (simp add: get_response_def example_get_def example_value_def responseHeaderBytes_def
        be_bytes32_def Let_def)
  from GetHandler_response [OF 1 2 3 4 5, of 0 example_store, THEN conjunct1]
  have "GetHandler example_get (example_ctx [0x6b]) 0 example_store =
       Some (Inr (example_ctx_after [0x6b]
               [0x81, 0x0c, 0x00, 0x01, 0x04, 0x00, 0x00, 0x00, 0x00, 0x00, 0x00, 0x07,
                0xde, 0xad, 0xbe, 0xef, 0x00, 0x00, 0x00, 0x00, 0x00, 0x00, 0x00, 0x01,
                0x00, 0x00, 0x00, 0x07, 0x6b, 0x57, 0x6f]), example_store)"
    unfolding l fst_conv snd_conv r
    by (simp add: example_ctx_after_def can_write_def written_def)
  with 1 2 3 4 5 show ?thesis by (intro conjI)
qed

subsection \<open>The SET family\<close>

lemma list_ge4:
  assumes "4 \<le> length (buf :: 'a list)"
  obtains a b c d r where "buf = a # b # c # d # r"
  using assms by (auto simp: numeral_eq_Suc Suc_le_length_iff)

lemma GetUint32_ge4:
  assumes "4 \<le> length buf"
  shows "GetUint32 buf = Inr (word_of_nat (be_nat (take 4 buf)))"
proof -
  from assms obtain a b c d r where buf: "buf = a # b # c # d # r" by (rule list_ge4)
  obtain v where v: "GetUint32 (a # b # c # d # r) = Inr v" by (simp add: GetUint32_Cons)
  from GetUint32_be [OF v] have "unat v = be_nat [a, b, c, d]" .
  moreover have "word_of_nat (unat v) = v" by simp
  ultimately have "v = word_of_nat (be_nat [a, b, c, d])" by simp
  then show ?thesis using v by (simp add: buf)
qed

lemma unat_be32_id:
  assumes "4 \<le> length buf"
  shows "unat (word_of_nat (be_nat (take 4 buf)) :: uint32) = be_nat (take 4 buf)"
proof -
  from assms obtain a b c d r where buf: "buf = a # b # c # d # r" by (rule list_ge4)
  obtain v where v: "GetUint32 (a # b # c # d # r) = Inr v" by (simp add: GetUint32_Cons)
  from GetUint32_be [OF v] have u: "unat v = be_nat [a, b, c, d]" .
  moreover have "word_of_nat (unat v) = v" by simp
  ultimately have "v = word_of_nat (be_nat [a, b, c, d])" by simp
  with u show ?thesis by (simp add: buf)
qed

lemma SetHandler_body_eq:
  assumes fit: "8 + unat (reqKeyLength h) \<le> length buf"
    and nowrap: "unat (reqKeyLength h) < 65528"
    and arr: "take (length buf) arr = buf"
  shows "SetHandler_body h buf arr now = Inr (set_key h buf, set_candidate h buf now)"
proof -
  let ?k = "unat (reqKeyLength h)"
  have hi: "unat (8 + reqKeyLength h) = 8 + ?k"
    using nowrap by (simp add: unat_word_ariths)
  have f: "GetUint32 buf = Inr (word_of_nat (be_nat (take 4 buf)))"
    using fit by (intro GetUint32_ge4) simp
  have t: "GetUint32 (drop 4 buf) = Inr (word_of_nat (be_nat (take 4 (drop 4 buf))))"
    using fit by (intro GetUint32_ge4) simp
  have tu: "uint (word_of_nat (be_nat (take 4 (drop 4 buf))) :: uint32)
            = int (be_nat (take 4 (drop 4 buf)))"
    using unat_be32_id [of "drop 4 buf"] fit by (simp add: uint_nat)
  have la: "8 + ?k \<le> length arr"
  proof -
    have "length (take (length buf) arr) = length buf" by (simp only: arr)
    then have "length buf \<le> length arr" by simp
    with fit show ?thesis by simp
  qed
  have key: "take ?k (drop 8 arr) = take ?k (drop 8 buf)"
  proof -
    have "take ?k (drop 8 buf) = take ?k (drop 8 (take (length buf) arr))" by (simp add: arr)
    also have "\<dots> = take ?k (drop 8 arr)" using fit by (simp add: drop_take min_def)
    finally show ?thesis by simp
  qed
  show ?thesis
    using fit la
    by (simp add: SetHandler_body_def f t hi tu key Let_def set_key_def set_candidate_def
        ttl_deadline_def)
qed

lemma SetHandler_body_wrap:
  assumes "65528 \<le> unat (reqKeyLength h)" "8 \<le> length buf"
  shows "SetHandler_body h buf arr now = Inl Panic"
proof -
  have b: "unat (reqKeyLength h) < 65536"
    using unsigned_less [of "reqKeyLength h", where 'a=nat] by simp
  have "unat (8 + reqKeyLength h) = (8 + unat (reqKeyLength h)) mod 65536"
    by (simp add: unat_word_ariths)
  also have "\<dots> = 8 + unat (reqKeyLength h) - 65536"
    using assms(1) b by (simp add: mod_if)
  finally have hi: "unat (8 + reqKeyLength h) < 8" using b by simp
  have f: "GetUint32 buf = Inr (word_of_nat (be_nat (take 4 buf)))"
    using assms(2) by (intro GetUint32_ge4) simp
  have t: "GetUint32 (drop 4 buf) = Inr (word_of_nat (be_nat (take 4 (drop 4 buf))))"
    using assms(2) by (intro GetUint32_ge4) simp
  show ?thesis using hi by (simp add: SetHandler_body_def f t Let_def)
qed

lemma SetHandler_store_eq:
  "SetHandler_store h key candidate s =
     (case set_dispatch h key candidate s of
        (Success e, s') \<Rightarrow> (False, CodeNoError, CAS e, s')
      | (Failure status, s') \<Rightarrow> (True, status, 0, s'))"
  by (cases "simplekvMap s key")
     (simp_all add: SetHandler_store_def set_dispatch_def AddToSimpleKV_eq SetToSimpleKV_eq
        add_def set_or_replace_def store_entry_def Let_def Op_defs CodeKeyExists_def
        CodeKeyNotFound_def)

lemma set_dispatch_status:
  "fst (set_dispatch h key candidate s) = Failure status \<Longrightarrow> status = 0x0001 \<or> status = 0x0002"
  by (cases "simplekvMap s key")
     (auto simp: set_dispatch_def add_def set_or_replace_def store_entry_def Let_def
        split: if_splits)

lemma SetHandler_output_success:
  "SetHandler_output h ctx False CodeNoError c =
     andThen (emit (RW ctx) (set_response h (Success (e\<lparr>CAS := c\<rparr>))))
       (\<lambda>rw. Inr (ctx\<lparr>RW := rw\<rparr>))"
proof (cases "reqOpcode h = 0x11 \<or> reqOpcode h = 0x12 \<or> reqOpcode h = 0x13")
  case True
  then have r: "set_response h (Success (e\<lparr>CAS := c\<rparr>)) = []"
    by (auto simp: set_response_def)
  have "SetHandler_output h ctx False CodeNoError c = Inr ctx"
    using True by (auto simp: SetHandler_output_def Let_def Op_defs)
  then show ?thesis by (simp only: r emit_ctx_Nil)
next
  case False
  then have r: "set_response h (Success (e\<lparr>CAS := c\<rparr>)) =
      responseHeaderBytes
                 \<lparr>respMagic = 0x81, respOpcode = reqOpcode h, respKeyLength = 0,
                  respExtraLength = 0, respDataType = 0, respStatus = 0x0000,
                  respTotalBodyLength = 0, respOpaque = reqOpaque h, respCAS = c\<rparr>"
    by (simp add: set_response_def)
  have "SetHandler_output h ctx False CodeNoError c =
      andThen (writeResponseHeader
                 \<lparr>respMagic = 0x81, respOpcode = reqOpcode h, respKeyLength = 0,
                  respExtraLength = 0, respDataType = 0, respStatus = 0x0000,
                  respTotalBodyLength = 0, respOpaque = reqOpaque h, respCAS = c\<rparr> (RW ctx))
        (\<lambda>rw. andThen (WriteByte_for (bytes_of []) (\<lambda>c. c) rw) (\<lambda>rw. Inr (ctx\<lparr>RW := rw\<rparr>)))"
    using False
    by (simp add: SetHandler_output_def Let_def Op_defs ResponseHeader0_def
        MagicResponse_def CodeNoError_def del: WriteByte_for.simps)
  also have "\<dots> = andThen (emit (RW ctx) (set_response h (Success (e\<lparr>CAS := c\<rparr>))))
       (\<lambda>rw. Inr (ctx\<lparr>RW := rw\<rparr>))"
    by (simp add: r writeResponseHeader_emit bytes_of_def emit_def)
  finally show ?thesis .
qed

lemma SetHandler_output_failure:
  assumes "status = 0x0001 \<or> status = 0x0002"
  shows "SetHandler_output h ctx True status 0 =
     andThen (emit (RW ctx) (set_response h (Failure status))) (\<lambda>rw. Inr (ctx\<lparr>RW := rw\<rparr>))"
proof -
  have "SetHandler_output h ctx True status 0 =
      andThen (writeResponseHeader
            \<lparr>respMagic = 0x81, respOpcode = reqOpcode h, respKeyLength = 0,
             respExtraLength = 0, respDataType = 0, respStatus = status,
             respTotalBodyLength = word_of_nat (length (failure_text status)),
             respOpaque = reqOpaque h, respCAS = 0\<rparr> (RW ctx))
        (\<lambda>rw. andThen (WriteByte_for (bytes_of (failure_text status)) (\<lambda>c. c) rw)
        (\<lambda>rw. Inr (ctx\<lparr>RW := rw\<rparr>)))"
    using assms
    by (auto simp: SetHandler_output_def Let_def ResponseHeader0_def failure_text_def
        MagicResponse_def CodeKeyNotFound_def CodeKeyExists_def simp del: WriteByte_for.simps)
  also have "\<dots> = andThen (emit (RW ctx) (set_response h (Failure status)))
       (\<lambda>rw. Inr (ctx\<lparr>RW := rw\<rparr>))"
    by (simp only: set_response_def outcome.case writeResponseHeader_emit WriteByte_for_emit
        emit_emit list.map_ident)
  finally show ?thesis .
qed

lemma SetHandler_eq:
  assumes shape: "reqExtraLength h = 8" "reqKeyLength h \<noteq> 0"
    and nowrap: "unat (reqKeyLength h) < 65528"
    and fit: "8 + unat (reqKeyLength h) \<le> unat (reqTotalBodyLength h)"
    and rd: "readBody (reqTotalBodyLength h) ctx = Some (Inr (buf, ctx1))"
  shows "SetHandler h ctx now s =
     Some (if can_write (RW ctx1)
                (length (set_response h
                   (fst (set_dispatch h (set_key h buf) (set_candidate h buf now) s))))
           then Inr (ctx1\<lparr>RW := written (RW ctx1)
                  (set_response h
                     (fst (set_dispatch h (set_key h buf) (set_candidate h buf now) s)))\<rparr>)
           else Inl WriteError,
           snd (set_dispatch h (set_key h buf) (set_candidate h buf now) s))"
proof -
  note rp = readBody_props [OF rd]
  have fit': "8 + unat (reqKeyLength h) \<le> length buf" using fit rp(1) by simp
  have arr: "take (length buf) (ReadBuf ctx1) = buf" using rp(1,2) by simp
  note body = SetHandler_body_eq [OF fit' nowrap arr, of now]
  obtain o' s' where d: "set_dispatch h (set_key h buf) (set_candidate h buf now) s = (o', s')"
    by (cases "set_dispatch h (set_key h buf) (set_candidate h buf now) s")
  have out: "(case o' of Success e \<Rightarrow> SetHandler_output h ctx1 False CodeNoError (CAS e)
                | Failure status \<Rightarrow> SetHandler_output h ctx1 True status 0)
             = andThen (emit (RW ctx1) (set_response h o')) (\<lambda>rw. Inr (ctx1\<lparr>RW := rw\<rparr>))"
  proof (cases o')
    case (Success e)
    show ?thesis
      using SetHandler_output_success [of h ctx1 "CAS e" e] by (simp add: Success)
  next
    case (Failure status)
    have "status = 0x0001 \<or> status = 0x0002"
      using set_dispatch_status [of h "set_key h buf" "set_candidate h buf now" s status] d Failure
      by simp
    from SetHandler_output_failure [OF this, of h ctx1] show ?thesis by (simp add: Failure)
  qed
  have "SetHandler h ctx now s =
     Some (case o' of Success e \<Rightarrow> SetHandler_output h ctx1 False CodeNoError (CAS e)
                | Failure status \<Rightarrow> SetHandler_output h ctx1 True status 0, s')"
    using shape rd body d
    by (simp add: SetHandler_def SetHandler_store_eq split: outcome.splits)
  then show ?thesis
    unfolding out d fst_conv snd_conv by (simp add: emit_ctx)
qed

lemma set_dispatch_cases:
  "(\<exists>status. set_dispatch h key candidate s = (Failure status, s)
              \<and> (status = 0x0001 \<or> status = 0x0002))
   \<or> set_dispatch h key candidate s =
        (Success (candidate\<lparr>CAS := fresh_cas (casID s)\<rparr>),
         s\<lparr>simplekvMap := (simplekvMap s)(key \<mapsto> candidate\<lparr>CAS := fresh_cas (casID s)\<rparr>),
           casID := fresh_cas (casID s)\<rparr>)"
  by (cases "simplekvMap s key")
     (auto simp: set_dispatch_def add_def set_or_replace_def store_entry_def Let_def)

lemma set_response_failure_nonempty: "set_response h (Failure status) \<noteq> []"
  by (simp add: set_response_def responseHeaderBytes_def)

text \<open>
  For a request of the SET family with a well-formed body and a key shorter than 65528
  bytes, \<open>SetHandler\<close> writes exactly the response \<open>set_response\<close> of the
  specification for the outcome of the store operation (or fails when the connection
  does not take it): nothing after a success of a quiet opcode; status \<open>NoError\<close>,
  an empty body and the CAS of the stored entry after a success of another opcode; and
  after a failure, quiet or not, the failure status with its fixed text as body and
  CAS 0. After a success the stored entry is the one found under the key.
\<close>

lemma SetHandler_response:
  assumes "reqOpcode h \<in> {OpSet, OpSetQ, OpAdd, OpAddQ, OpReplace, OpReplaceQ}"
    and "reqExtraLength h = 8" and "0 < reqKeyLength h"
    and "unat (reqKeyLength h) < 65528"
    and "8 + unat (reqKeyLength h) \<le> unat (reqTotalBodyLength h)"
    and "readBody (reqTotalBodyLength h) ctx = Some (Inr (buf, ctx1))"
  shows "SetHandler h ctx now s =
     Some (if can_write (RW ctx1)
                (length (set_response h
                   (fst (set_dispatch h (set_key h buf) (set_candidate h buf now) s))))
           then Inr (ctx1\<lparr>RW := written (RW ctx1)
                  (set_response h
                     (fst (set_dispatch h (set_key h buf) (set_candidate h buf now) s)))\<rparr>)
           else Inl WriteError,
           snd (set_dispatch h (set_key h buf) (set_candidate h buf now) s))
   \<and> (\<forall>status. fst (set_dispatch h (set_key h buf) (set_candidate h buf now) s) = Failure status
         \<longrightarrow> (status = 0x0001 \<or> status = 0x0002) \<and> set_response h (Failure status) \<noteq> [])
   \<and> (\<forall>e. fst (set_dispatch h (set_key h buf) (set_candidate h buf now) s) = Success e
         \<longrightarrow> simplekvMap (snd (set_dispatch h (set_key h buf) (set_candidate h buf now) s))
               (set_key h buf) = Some e)"
proof -
  have nz: "reqKeyLength h \<noteq> 0" using assms(3) by auto
  note eq = SetHandler_eq [OF assms(2) nz assms(4) assms(5) assms(6), of now s]
  have f: "\<forall>status. fst (set_dispatch h (set_key h buf) (set_candidate h buf now) s) = Failure status
         \<longrightarrow> (status = 0x0001 \<or> status = 0x0002) \<and> set_response h (Failure status) \<noteq> []"
    using set_dispatch_status set_response_failure_nonempty by blast
  have g: "\<forall>e. fst (set_dispatch h (set_key h buf) (set_candidate h buf now) s) = Success e
         \<longrightarrow> simplekvMap (snd (set_dispatch h (set_key h buf) (set_candidate h buf now) s))
               (set_key h buf) = Some e"
    using set_dispatch_cases [of h "set_key h buf" "set_candidate h buf now" s] by auto
  show ?thesis using eq f g by (intro conjI)
qed

text \<open>
  Claim C3. For a request of the SET family with a well-formed body, the entry handed
  to the store, and after a success the entry stored under the key, has the deadline
  \<open>raw_ttl + now\<close> when the 4-byte raw TTL of the body is positive, and 0 when it is
  0; \<open>now\<close> is the second of the minute that the handler reads from the clock.
\<close>

theorem SetHandler_ttl:
  assumes "reqOpcode h \<in> {OpSet, OpSetQ, OpAdd, OpAddQ, OpReplace, OpReplaceQ}"
    and "reqExtraLength h = 8" and "0 < reqKeyLength h"
    and "unat (reqKeyLength h) < 65528"
    and "8 + unat (reqKeyLength h) \<le> unat (reqTotalBodyLength h)"
    and "readBody (reqTotalBodyLength h) ctx = Some (Inr (buf, ctx1))"
  shows "SetHandler_body h buf (ReadBuf ctx1) now = Inr (set_key h buf, set_candidate h buf now)
   \<and> GetUint32 (drop 4 buf) = Inr (word_of_nat (be_nat (take 4 (drop 4 buf))))
   \<and> TTL (set_candidate h buf now) =
       (if be_nat (take 4 (drop 4 buf)) > 0 then int (be_nat (take 4 (drop 4 buf))) + now else 0)
   \<and> (\<exists>out. SetHandler h ctx now s =
         Some (out, snd (set_dispatch h (set_key h buf) (set_candidate h buf now) s)))
   \<and> (\<forall>e. fst (set_dispatch h (set_key h buf) (set_candidate h buf now) s) = Success e
         \<longrightarrow> simplekvMap (snd (set_dispatch h (set_key h buf) (set_candidate h buf now) s))
               (set_key h buf) = Some e
             \<and> TTL e = (if be_nat (take 4 (drop 4 buf)) > 0
                         then int (be_nat (take 4 (drop 4 buf))) + now else 0))"
proof -
  have nz: "reqKeyLength h \<noteq> 0" using assms(3) by auto
  note rp = readBody_props [OF assms(6)]
  have fit': "8 + unat (reqKeyLength h) \<le> length buf" using assms(5) rp(1) by simp
  have arr: "take (length buf) (ReadBuf ctx1) = buf" using rp(1,2) by simp
  have 1: "SetHandler_body h buf (ReadBuf ctx1) now = Inr (set_key h buf, set_candidate h buf now)"
    by (rule SetHandler_body_eq [OF fit' assms(4) arr])
  have 2: "GetUint32 (drop 4 buf) = Inr (word_of_nat (be_nat (take 4 (drop 4 buf))))"
    using fit' by (intro GetUint32_ge4) simp
  have 3: "TTL (set_candidate h buf now) =
       (if be_nat (take 4 (drop 4 buf)) > 0 then int (be_nat (take 4 (drop 4 buf))) + now else 0)"
    by (simp add: set_candidate_def ttl_deadline_def)
  have 4: "\<exists>out. SetHandler h ctx now s =
         Some (out, snd (set_dispatch h (set_key h buf) (set_candidate h buf now) s))"
    using SetHandler_eq [OF assms(2) nz assms(4) assms(5) assms(6), of now s] by blast
  have 5: "\<forall>e. fst (set_dispatch h (set_key h buf) (set_candidate h buf now) s) = Success e
         \<longrightarrow> simplekvMap (snd (set_dispatch h (set_key h buf) (set_candidate h buf now) s))
               (set_key h buf) = Some e
             \<and> TTL e = (if be_nat (take 4 (drop 4 buf)) > 0
                         then int (be_nat (take 4 (drop 4 buf))) + now else 0)"
    using set_dispatch_cases [of h "set_key h buf" "set_candidate h buf now" s] 3 by auto
  show ?thesis using 1 2 3 4 5 by (intro conjI)
qed

text \<open>
  Claim C5. \<open>AddToSimpleKV\<close> is \<open>add\<close> of the specification: for a present key it
  fails and changes nothing; otherwise it stamps a fresh nonzero CAS into the
  candidate, inserts it and returns it. For Add and AddQ on a present key the handler
  answers with status \<open>KeyExists\<close> (0x0002) and the body "Data exists for key.".
\<close>

theorem AddToSimpleKV_add:
  "AddToSimpleKV key newVal s =
     (case add key newVal s of
        (Already_exists, s') \<Rightarrow> ((newVal, False), s')
      | (Added e, s') \<Rightarrow> ((e, True), s'))
   \<and> (simplekvMap s key \<noteq> None \<longrightarrow> AddToSimpleKV key newVal s = ((newVal, False), s))
   \<and> (simplekvMap s key = None \<longrightarrow>
        AddToSimpleKV key newVal s =
          ((newVal\<lparr>CAS := fresh_cas (casID s)\<rparr>, True),
           s\<lparr>simplekvMap := (simplekvMap s)(key \<mapsto> newVal\<lparr>CAS := fresh_cas (casID s)\<rparr>),
             casID := fresh_cas (casID s)\<rparr>))
   \<and> fresh_cas (casID s) \<noteq> 0
   \<and> ((reqOpcode h = OpAdd \<or> reqOpcode h = OpAddQ) \<and> reqExtraLength h = 8
        \<and> 0 < reqKeyLength h \<and> unat (reqKeyLength h) < 65528
        \<and> 8 + unat (reqKeyLength h) \<le> unat (reqTotalBodyLength h)
        \<and> readBody (reqTotalBodyLength h) ctx = Some (Inr (buf, ctx1))
        \<and> simplekvMap s (set_key h buf) \<noteq> None \<longrightarrow>
        SetHandler h ctx now s =
          Some (if can_write (RW ctx1) 44
                then Inr (ctx1\<lparr>RW := written (RW ctx1)
                       (responseHeaderBytes
                          \<lparr>respMagic = 0x81, respOpcode = reqOpcode h, respKeyLength = 0,
                           respExtraLength = 0, respDataType = 0, respStatus = 0x0002,
                           respTotalBodyLength = 20, respOpaque = reqOpaque h, respCAS = 0\<rparr>
                        @ bytes_of ''Data exists for key.'')\<rparr>)
                else Inl WriteError, s))"
proof -
  have a: "simplekvMap s key \<noteq> None \<longrightarrow> AddToSimpleKV key newVal s = ((newVal, False), s)"
    by (auto simp: AddToSimpleKV_eq add_def)
  have b: "simplekvMap s key = None \<longrightarrow>
        AddToSimpleKV key newVal s =
          ((newVal\<lparr>CAS := fresh_cas (casID s)\<rparr>, True),
           s\<lparr>simplekvMap := (simplekvMap s)(key \<mapsto> newVal\<lparr>CAS := fresh_cas (casID s)\<rparr>),
             casID := fresh_cas (casID s)\<rparr>)"
    by (simp add: AddToSimpleKV_eq add_def store_entry_def Let_def)
  have c: "SetHandler h ctx now s =
          Some (if can_write (RW ctx1) 44
                then Inr (ctx1\<lparr>RW := written (RW ctx1)
                       (responseHeaderBytes
                          \<lparr>respMagic = 0x81, respOpcode = reqOpcode h, respKeyLength = 0,
                           respExtraLength = 0, respDataType = 0, respStatus = 0x0002,
                           respTotalBodyLength = 20, respOpaque = reqOpaque h, respCAS = 0\<rparr>
                        @ bytes_of ''Data exists for key.'')\<rparr>)
                else Inl WriteError, s)"
    if op: "reqOpcode h = OpAdd \<or> reqOpcode h = OpAddQ" and e: "reqExtraLength h = 8"
      and k: "0 < reqKeyLength h" and w: "unat (reqKeyLength h) < 65528"
      and f: "8 + unat (reqKeyLength h) \<le> unat (reqTotalBodyLength h)"
      and r: "readBody (reqTotalBodyLength h) ctx = Some (Inr (buf, ctx1))"
      and p: "simplekvMap s (set_key h buf) \<noteq> None"
  proof -
    have nz: "reqKeyLength h \<noteq> 0" using k by auto
    have d: "set_dispatch h (set_key h buf) (set_candidate h buf now) s = (Failure 0x0002, s)"
      using op p by (auto simp: set_dispatch_def add_def Op_defs)
    have resp: "set_response h (Failure 0x0002) =
        responseHeaderBytes
                          \<lparr>respMagic = 0x81, respOpcode = reqOpcode h, respKeyLength = 0,
                           respExtraLength = 0, respDataType = 0, respStatus = 0x0002,
                           respTotalBodyLength = 20, respOpaque = reqOpaque h, respCAS = 0\<rparr>
                        @ bytes_of ''Data exists for key.''"
      by (simp add: set_response_def failure_text_def)
    have l: "length (set_response h (Failure 0x0002)) = 44"
      unfolding resp by (simp add: responseHeaderBytes_def bytes_of_def)
    have "SetHandler h ctx now s =
       Some (if can_write (RW ctx1) (length (set_response h (Failure 0x0002)))
             then Inr (ctx1\<lparr>RW := written (RW ctx1) (set_response h (Failure 0x0002))\<rparr>)
             else Inl WriteError, s)"
      using SetHandler_eq [OF e nz w f r, of now s] unfolding d fst_conv snd_conv .
    then show ?thesis unfolding l unfolding resp .
  qed
  show ?thesis
    using AddToSimpleKV_eq [of key newVal s] a b c fresh_cas_nonzero [of "casID s"]
    by (intro conjI impI) auto
qed

lemma example_set_readBody:
  "readBody (reqTotalBodyLength (example_set opcode)) (example_ctx example_set_body)
     = Some (Inr (example_set_body, example_ctx_after example_set_body []))"
  by (rule example_readBody) (simp_all add: example_set_def example_set_body_def)

lemma example_set_parts:
  "set_key (example_set opcode) example_set_body = [0x6b]"
  "set_candidate (example_set opcode) example_set_body now
     = \<lparr>RawData = [0x57, 0x6f], Flag = 7, CAS = 0, TTL = 10 + now\<rparr>"
  by (simp_all add: set_key_def set_candidate_def example_set_def example_set_body_def
      be_nat_def ttl_deadline_def)

lemma example_set_hyps:
  "reqExtraLength (example_set opcode) = 8" "0 < reqKeyLength (example_set opcode)"
  "unat (reqKeyLength (example_set opcode)) < 65528"
  "8 + unat (reqKeyLength (example_set opcode)) \<le> unat (reqTotalBodyLength (example_set opcode))"
  by (simp_all add: example_set_def)

lemma example_dispatch_store0:
  "set_dispatch (example_set 0x01) [0x6b] \<lparr>RawData = [0x57, 0x6f], Flag = 7, CAS = 0, TTL = 10 + 30\<rparr>
     store0 = (Success \<lparr>RawData = [0x57, 0x6f], Flag = 7, CAS = 1, TTL = 40\<rparr>, stored_example)"
  "set_dispatch (example_set 0x11) [0x6b] \<lparr>RawData = [0x57, 0x6f], Flag = 7, CAS = 0, TTL = 10 + 30\<rparr>
     store0 = (Success \<lparr>RawData = [0x57, 0x6f], Flag = 7, CAS = 1, TTL = 40\<rparr>, stored_example)"
  "set_dispatch (example_set 0x13) [0x6b] \<lparr>RawData = [0x57, 0x6f], Flag = 7, CAS = 0, TTL = 10 + 30\<rparr>
     store0 = (Failure 0x0001, store0)"
  by (simp_all add: set_dispatch_def set_or_replace_def store_entry_def fresh_cas_def
      example_set_def store0_def stored_example_def Let_def)

text \<open>Set answers with the CAS of the stored entry, SetQ answers nothing, and
  ReplaceQ of a missing key answers with \<open>KeyNotFound\<close>.\<close>

lemma SetHandler_response_example:
  "reqOpcode (example_set 0x01) \<in> {OpSet, OpSetQ, OpAdd, OpAddQ, OpReplace, OpReplaceQ}
   \<and> reqExtraLength (example_set 0x01) = 8 \<and> 0 < reqKeyLength (example_set 0x01)
   \<and> unat (reqKeyLength (example_set 0x01)) < 65528
   \<and> 8 + unat (reqKeyLength (example_set 0x01)) \<le> unat (reqTotalBodyLength (example_set 0x01))
   \<and> readBody (reqTotalBodyLength (example_set 0x01)) (example_ctx example_set_body)
        = Some (Inr (example_set_body, example_ctx_after example_set_body []))
   \<and> SetHandler (example_set 0x01) (example_ctx example_set_body) 30 store0 =
       Some (Inr (example_ctx_after example_set_body
               [0x81, 0x01, 0x00, 0x00, 0x00, 0x00, 0x00, 0x00, 0x00, 0x00, 0x00, 0x00,
                0xde, 0xad, 0xbe, 0xef, 0x00, 0x00, 0x00, 0x00, 0x00, 0x00, 0x00, 0x01]),
             stored_example)
   \<and> SetHandler (example_set 0x11) (example_ctx example_set_body) 30 store0 =
       Some (Inr (example_ctx_after example_set_body []), stored_example)
   \<and> SetHandler (example_set 0x13) (example_ctx example_set_body) 30 store0 =
       Some (Inr (example_ctx_after example_set_body
               ([0x81, 0x13, 0x00, 0x00, 0x00, 0x00, 0x00, 0x01, 0x00, 0x00, 0x00, 0x09,
                 0xde, 0xad, 0xbe, 0xef, 0x00, 0x00, 0x00, 0x00, 0x00, 0x00, 0x00, 0x00]
                @ bytes_of ''Not found'')), store0)"
proof -
  have op: "reqOpcode (example_set 0x01) \<in> {OpSet, OpSetQ, OpAdd, OpAddQ, OpReplace, OpReplaceQ}"
    "reqOpcode (example_set 0x11) \<in> {OpSet, OpSetQ, OpAdd, OpAddQ, OpReplace, OpReplaceQ}"
    "reqOpcode (example_set 0x13) \<in> {OpSet, OpSetQ, OpAdd, OpAddQ, OpReplace, OpReplaceQ}"
    by (simp_all add: example_set_def Op_defs)
  note h = example_set_hyps
  note r = example_set_readBody
  note a = SetHandler_response [OF op(1) h [of "0x01"] r [of "0x01"], of 30 store0, THEN conjunct1]
  note b = SetHandler_response [OF op(2) h [of "0x11"] r [of "0x11"], of 30 store0, THEN conjunct1]
  note c = SetHandler_response [OF op(3) h [of "0x13"] r [of "0x13"], of 30 store0, THEN conjunct1]
  have ra: "set_response (example_set 0x01)
              (Success \<lparr>RawData = [0x57, 0x6f], Flag = 7, CAS = 1, TTL = 40\<rparr>) =
               [0x81, 0x01, 0x00, 0x00, 0x00, 0x00, 0x00, 0x00, 0x00, 0x00, 0x00, 0x00,
                0xde, 0xad, 0xbe, 0xef, 0x00, 0x00, 0x00, 0x00, 0x00, 0x00, 0x00, 0x01]"
    by (simp add: set_response_def example_set_def responseHeaderBytes_def)
  have rb: "set_response (example_set 0x11)
              (Success \<lparr>RawData = [0x57, 0x6f], Flag = 7, CAS = 1, TTL = 40\<rparr>) = []"
    by (simp add: set_response_def example_set_def)
  have rc: "set_response (example_set 0x13) (Failure 0x0001) =
               [0x81, 0x13, 0x00, 0x00, 0x00, 0x00, 0x00, 0x01, 0x00, 0x00, 0x00, 0x09,
                 0xde, 0xad, 0xbe, 0xef, 0x00, 0x00, 0x00, 0x00, 0x00, 0x00, 0x00, 0x00]
                @ bytes_of ''Not found''"
    by (simp add: set_response_def example_set_def responseHeaderBytes_def failure_text_def)
  have A: "SetHandler (example_set 0x01) (example_ctx example_set_body) 30 store0 =
       Some (Inr (example_ctx_after example_set_body
               [0x81, 0x01, 0x00, 0x00, 0x00, 0x00, 0x00, 0x00, 0x00, 0x00, 0x00, 0x00,
                0xde, 0xad, 0xbe, 0xef, 0x00, 0x00, 0x00, 0x00, 0x00, 0x00, 0x00, 0x01]),
             stored_example)"
    using a unfolding example_set_parts example_dispatch_store0 fst_conv snd_conv ra
    by (simp add: example_ctx_after_def can_write_def written_def)
  have B: "SetHandler (example_set 0x11) (example_ctx example_set_body) 30 store0 =
       Some (Inr (example_ctx_after example_set_body []), stored_example)"
    using b unfolding example_set_parts example_dispatch_store0 fst_conv snd_conv rb
    by (simp add: example_ctx_after_def can_write_def written_def)
  have C: "SetHandler (example_set 0x13) (example_ctx example_set_body) 30 store0 =
       Some (Inr (example_ctx_after example_set_body
               ([0x81, 0x13, 0x00, 0x00, 0x00, 0x00, 0x00, 0x01, 0x00, 0x00, 0x00, 0x09,
                 0xde, 0xad, 0xbe, 0xef, 0x00, 0x00, 0x00, 0x00, 0x00, 0x00, 0x00, 0x00]
                @ bytes_of ''Not found'')), store0)"
    using c unfolding example_set_parts example_dispatch_store0 fst_conv snd_conv rc
    by (simp add: example_ctx_after_def can_write_def written_def)
  show ?thesis using op(1) h [of "0x01"] r [of "0x01"] A B C by (intro conjI)
qed

text \<open>A raw TTL of 10 handled at second 30 is stored as the deadline 40.\<close>

theorem SetHandler_ttl_witness:
  "reqOpcode (example_set 0x01) \<in> {OpSet, OpSetQ, OpAdd, OpAddQ, OpReplace, OpReplaceQ}
   \<and> reqExtraLength (example_set 0x01) = 8 \<and> 0 < reqKeyLength (example_set 0x01)
   \<and> unat (reqKeyLength (example_set 0x01)) < 65528
   \<and> 8 + unat (reqKeyLength (example_set 0x01)) \<le> unat (reqTotalBodyLength (example_set 0x01))
   \<and> readBody (reqTotalBodyLength (example_set 0x01)) (example_ctx example_set_body)
        = Some (Inr (example_set_body, example_ctx_after example_set_body []))
   \<and> be_nat (take 4 (drop 4 example_set_body)) = 10
   \<and> (\<exists>out. SetHandler (example_set 0x01) (example_ctx example_set_body) 30 store0
              = Some (out, stored_example))
   \<and> (\<exists>e. simplekvMap stored_example [0x6b] = Some e \<and> TTL e = 10 + 30)"
proof -
  have op: "reqOpcode (example_set 0x01) \<in> {OpSet, OpSetQ, OpAdd, OpAddQ, OpReplace, OpReplaceQ}"
    by (simp add: example_set_def Op_defs)
  note h = example_set_hyps [of "0x01"]
  note r = example_set_readBody [of "0x01"]
  note spec = SetHandler_ttl [OF op h r, of 30 store0,
      unfolded example_set_parts example_dispatch_store0 fst_conv snd_conv]
  have raw: "be_nat (take 4 (drop 4 example_set_body)) = 10"
    by (simp add: example_set_body_def be_nat_def)
  from spec have 4: "\<exists>out. SetHandler (example_set 0x01) (example_ctx example_set_body) 30 store0
              = Some (out, stored_example)"
    by blast
  from spec have "simplekvMap stored_example [0x6b]
                    = Some \<lparr>RawData = [0x57, 0x6f], Flag = 7, CAS = 1, TTL = 40\<rparr>
       \<and> TTL \<lparr>RawData = [0x57, 0x6f], Flag = 7, CAS = 1, TTL = 40\<rparr> =
          (if be_nat (take 4 (drop 4 example_set_body)) > 0
           then int (be_nat (take 4 (drop 4 example_set_body))) + 30 else 0)"
    by blast
  then have 5: "\<exists>e. simplekvMap stored_example [0x6b] = Some e \<and> TTL e = 10 + 30"
    unfolding raw by simp
  show ?thesis using op h r raw 4 5 by (intro conjI)
qed

text \<open>An add of a present key fails, an add to the empty store inserts with CAS 1, and
  AddQ of a present key is answered with \<open>KeyExists\<close>.\<close>

theorem AddToSimpleKV_add_witness:
  "simplekvMap example_store [0x6b] \<noteq> None
   \<and> AddToSimpleKV [0x6b] example_value example_store = ((example_value, False), example_store)
   \<and> simplekvMap store0 [0x6b] = None
   \<and> AddToSimpleKV [0x6b] example_value store0 = ((example_value\<lparr>CAS := 1\<rparr>, True), example_store)
   \<and> (reqOpcode (example_set 0x12) = OpAdd \<or> reqOpcode (example_set 0x12) = OpAddQ)
   \<and> readBody (reqTotalBodyLength (example_set 0x12)) (example_ctx example_set_body)
        = Some (Inr (example_set_body, example_ctx_after example_set_body []))
   \<and> simplekvMap example_store (set_key (example_set 0x12) example_set_body) \<noteq> None
   \<and> SetHandler (example_set 0x12) (example_ctx example_set_body) 30 example_store =
       Some (Inr (example_ctx_after example_set_body
               ([0x81, 0x12, 0x00, 0x00, 0x00, 0x00, 0x00, 0x02, 0x00, 0x00, 0x00, 0x14,
                 0xde, 0xad, 0xbe, 0xef, 0x00, 0x00, 0x00, 0x00, 0x00, 0x00, 0x00, 0x00]
                @ bytes_of ''Data exists for key.'')), example_store)"
proof -
  have p1: "simplekvMap example_store [0x6b] \<noteq> None" by (simp add: example_store_def)
  have p2: "simplekvMap store0 [0x6b] = None" by (simp add: store0_def)
  have op: "reqOpcode (example_set 0x12) = OpAdd \<or> reqOpcode (example_set 0x12) = OpAddQ"
    by (simp add: example_set_def Op_defs)
  note h = example_set_hyps [of "0x12"]
  note r = example_set_readBody [of "0x12"]
  have p3: "simplekvMap example_store (set_key (example_set 0x12) example_set_body) \<noteq> None"
    unfolding example_set_parts by (rule p1)
  note s1 = AddToSimpleKV_add [of "[0x6b]" example_value example_store]
  note s2 = AddToSimpleKV_add [of "[0x6b]" example_value store0]
  note s3 = AddToSimpleKV_add [of _ _ example_store "example_set 0x12"
      "example_ctx example_set_body" example_set_body "example_ctx_after example_set_body []" 30]
  have a1: "AddToSimpleKV [0x6b] example_value example_store = ((example_value, False), example_store)"
    using s1 p1 by blast
  have "AddToSimpleKV [0x6b] example_value store0 =
          ((example_value\<lparr>CAS := fresh_cas (casID store0)\<rparr>, True),
           store0\<lparr>simplekvMap := (simplekvMap store0)([0x6b] \<mapsto> example_value\<lparr>CAS := fresh_cas (casID store0)\<rparr>),
             casID := fresh_cas (casID store0)\<rparr>)"
    using s2 p2 by blast
  then have a2: "AddToSimpleKV [0x6b] example_value store0
       = ((example_value\<lparr>CAS := 1\<rparr>, True), example_store)"
    by (simp add: store0_def fresh_cas_def example_store_def)
  have "SetHandler (example_set 0x12) (example_ctx example_set_body) 30 example_store =
          Some (if can_write (RW (example_ctx_after example_set_body [])) 44
                then Inr ((example_ctx_after example_set_body [])\<lparr>RW := written (RW (example_ctx_after example_set_body []))
                       (responseHeaderBytes
                          \<lparr>respMagic = 0x81, respOpcode = reqOpcode (example_set 0x12), respKeyLength = 0,
                           respExtraLength = 0, respDataType = 0, respStatus = 0x0002,
                           respTotalBodyLength = 20, respOpaque = reqOpaque (example_set 0x12), respCAS = 0\<rparr>
                        @ bytes_of ''Data exists for key.'')\<rparr>)
                else Inl WriteError, example_store)"
    using s3 op h r p3 by blast
  then have a3: "SetHandler (example_set 0x12) (example_ctx example_set_body) 30 example_store =
       Some (Inr (example_ctx_after example_set_body
               ([0x81, 0x12, 0x00, 0x00, 0x00, 0x00, 0x00, 0x02, 0x00, 0x00, 0x00, 0x14,
                 0xde, 0xad, 0xbe, 0xef, 0x00, 0x00, 0x00, 0x00, 0x00, 0x00, 0x00, 0x00]
                @ bytes_of ''Data exists for key.'')), example_store)"
    by (simp add: example_ctx_after_def can_write_def written_def example_set_def
        responseHeaderBytes_def)
  show ?thesis using p1 a1 p2 a2 op r p3 a3 by (intro conjI)
qed

text \<open>A key of 65528 bytes or more makes \<open>8+header.KeyLength\<close> wrap around, and the
  slice expression for the key panics.\<close>

lemma SetHandler_key_wrap_panics:
  assumes "reqExtraLength h = 8" and "65528 \<le> unat (reqKeyLength h)"
    and "8 \<le> unat (reqTotalBodyLength h)"
    and "readBody (reqTotalBodyLength h) ctx = Some (Inr (buf, ctx1))"
  shows "SetHandler h ctx now s = Some (Inl Panic, s)"
proof -
  have nz: "reqKeyLength h \<noteq> 0" using assms(2) by auto
  have "8 \<le> length buf" using readBody_props(1) [OF assms(4)] assms(3) by simp
  from SetHandler_body_wrap [OF assms(2) this]
  have "SetHandler_body h buf (ReadBuf ctx1) now = Inl Panic" .
  then show ?thesis using assms(1,4) nz by (simp add: SetHandler_def)
qed

text \<open>The value and the key of a stored entry come from one body, whose length is a
  32-bit number: the total body length of a later hit does not wrap around.\<close>

lemma stored_value_fits:
  assumes "8 + unat (reqKeyLength h) \<le> unat (reqTotalBodyLength h)"
    and "readBody (reqTotalBodyLength h) ctx = Some (Inr (buf, ctx1))"
  shows "4 + length (set_key h buf) + length (RawData (set_candidate h buf now)) < 2 ^ 32"
proof -
  have l: "length buf = unat (reqTotalBodyLength h)" using readBody_props(1) [OF assms(2)] .
  have "unat (reqTotalBodyLength h) < 2 ^ 32"
    using unsigned_less [of "reqTotalBodyLength h", where 'a=nat] by simp
  then show ?thesis using assms(1) l by (simp add: set_key_def set_candidate_def)
qed


text \<open>With a read buffer that is not empty, as the connection worker makes it, the
  handlers return.\<close>

lemma GetHandler_returns: "ReadBuf ctx \<noteq> [] \<Longrightarrow> GetHandler h ctx now s \<noteq> None"
  using readBody_returns [of ctx "reqTotalBodyLength h"]
  by (auto simp: GetHandler_def split: option.splits sum.splits prod.splits)

lemma SetHandler_returns: "ReadBuf ctx \<noteq> [] \<Longrightarrow> SetHandler h ctx now s \<noteq> None"
  using readBody_returns [of ctx "reqTotalBodyLength h"]
  by (auto simp: SetHandler_def split: option.splits sum.splits prod.splits)

lemma readBody_after_grow:
  assumes g: "growReadBuf t ctx = Some (Inr c0)"
    and "rd (RW c0) = [body]" "length body = unat t" "unat t \<le> length (ReadBuf c0)"
    "body \<noteq> []"
  shows "readBody t ctx =
     Some (Inr (body, c0\<lparr>RW := (RW c0)\<lparr>rd := []\<rparr>,
                        ReadBuf := body @ drop (unat t) (ReadBuf c0)\<rparr>))"
proof -
  have pos: "0 < unat t" using assms(3,5) by (cases body) auto
  have "read_loop (RW c0) (take (unat t) (ReadBuf c0)) 0 = Inr (body, (RW c0)\<lparr>rd := []\<rparr>)"
  proof (rule read_loop_one_piece)
    show "rd (RW c0) = [body]" by (rule assms(2))
    show "length body = length (take (unat t) (ReadBuf c0))" using assms(3,4) by simp
    show "take (unat t) (ReadBuf c0) \<noteq> []" using pos assms(4) by auto
  qed
  then show ?thesis using g assms(4) by (simp add: readBody_def)
qed

lemma grow_4096_65536: "grow_nsize 4096 65536 = Some 65536"
proof -
  have "grow_nsize 4096 65536 = grow_nsize 8192 65536" by (subst grow_nsize.simps) simp
  also have "\<dots> = grow_nsize 16384 65536" by (subst grow_nsize.simps) simp
  also have "\<dots> = grow_nsize 32768 65536" by (subst grow_nsize.simps) simp
  also have "\<dots> = grow_nsize 65536 65536" by (subst grow_nsize.simps) simp
  also have "\<dots> = Some 65536" by (subst grow_nsize.simps) simp
  finally show ?thesis .
qed

lemma long_key_readBody:
  "readBody (reqTotalBodyLength long_key_request) long_key_ctx
     = Some (Inr (long_key_body, long_key_ctx_read))"
proof -
  have t: "unat (reqTotalBodyLength long_key_request) = 65536"
    by (simp add: long_key_request_def)
  have g: "growReadBuf (reqTotalBodyLength long_key_request) long_key_ctx
           = Some (Inr (long_key_ctx\<lparr>ReadBuf := replicate 65536 0\<rparr>))"
    by (simp add: growReadBuf_def long_key_request_def long_key_ctx_def MaxReqLen_def
        grow_4096_65536 word_less_nat_alt)
  have "readBody (reqTotalBodyLength long_key_request) long_key_ctx =
     Some (Inr (long_key_body, (long_key_ctx\<lparr>ReadBuf := replicate 65536 0\<rparr>)
        \<lparr>RW := (RW (long_key_ctx\<lparr>ReadBuf := replicate 65536 0\<rparr>))\<lparr>rd := []\<rparr>,
         ReadBuf := long_key_body @ drop (unat (reqTotalBodyLength long_key_request))
                       (ReadBuf (long_key_ctx\<lparr>ReadBuf := replicate 65536 0\<rparr>))\<rparr>))"
    by (rule readBody_after_grow [OF g])
       (simp_all add: t long_key_ctx_def long_key_body_def)
  then show ?thesis
    by (simp add: t long_key_ctx_def long_key_ctx_read_def long_key_body_def)
qed

lemma long_key_parsed: "parseRequestHeader long_key_header = Inr long_key_request"
  by (simp add: long_key_header_def parse24 known_opcodes_def GetUint16_Cons GetUint32_Cons
      GetUint64_Cons long_key_request_def)

text \<open>
  Claim C6. The claim says that a request of the SET family whose store operation
  fails is always answered with the failure status and its text. The code does not
  do so for a key of 65528 bytes or more: \<open>8+header.KeyLength\<close> wraps around in
  \<open>uint16\<close>, the slice expression \<open>buf[8 : 8+header.KeyLength]\<close> panics, and
  \<open>SetHandler\<close> stops before the store is reached, with nothing written to the
  connection and the store unchanged, although the response that the specification
  gives for a failure is never empty. For shorter keys the handler answers as the
  claim says (\<open>SetHandler_response\<close>).
\<close>

theorem SetHandler_long_key_no_response:
  assumes "reqOpcode h \<in> {OpSet, OpSetQ, OpAdd, OpAddQ, OpReplace, OpReplaceQ}"
    and "reqExtraLength h = 8"
    and "65528 \<le> unat (reqKeyLength h)"
    and "8 + unat (reqKeyLength h) \<le> unat (reqTotalBodyLength h)"
    and "readBody (reqTotalBodyLength h) ctx = Some (Inr (buf, ctx1))"
  shows "SetHandler h ctx now s = Some (Inl Panic, s)
   \<and> (\<forall>status. fst (set_dispatch h (set_key h buf) (set_candidate h buf now) s) = Failure status
         \<longrightarrow> set_response h (Failure status) \<noteq> [])"
proof -
  have "8 \<le> unat (reqTotalBodyLength h)" using assms(4) by simp
  from SetHandler_key_wrap_panics [OF assms(2) assms(3) this assms(5)]
  have "SetHandler h ctx now s = Some (Inl Panic, s)" .
  then show ?thesis using set_response_failure_nonempty by blast
qed

text \<open>A Replace of a missing key of 65528 bytes: the parser accepts the header, the
  body is read, the store operation of the specification fails with \<open>KeyNotFound\<close>,
  whose response is not empty, and the handler panics without a response.\<close>

theorem SetHandler_long_key_no_response_witness:
  "parseRequestHeader long_key_header = Inr long_key_request
   \<and> reqOpcode long_key_request \<in> {OpSet, OpSetQ, OpAdd, OpAddQ, OpReplace, OpReplaceQ}
   \<and> reqExtraLength long_key_request = 8
   \<and> 65528 \<le> unat (reqKeyLength long_key_request)
   \<and> 8 + unat (reqKeyLength long_key_request) \<le> unat (reqTotalBodyLength long_key_request)
   \<and> readBody (reqTotalBodyLength long_key_request) long_key_ctx
        = Some (Inr (long_key_body, long_key_ctx_read))
   \<and> SetHandler long_key_request long_key_ctx 0 store0 = Some (Inl Panic, store0)
   \<and> fst (set_dispatch long_key_request (set_key long_key_request long_key_body)
              (set_candidate long_key_request long_key_body 0) store0) = Failure 0x0001
   \<and> set_response long_key_request (Failure 0x0001) \<noteq> []"
proof -
  have 1: "reqOpcode long_key_request \<in> {OpSet, OpSetQ, OpAdd, OpAddQ, OpReplace, OpReplaceQ}"
    by (simp add: long_key_request_def Op_defs)
  have 2: "reqExtraLength long_key_request = 8" by (simp add: long_key_request_def)
  have 3: "65528 \<le> unat (reqKeyLength long_key_request)" by (simp add: long_key_request_def)
  have 4: "8 + unat (reqKeyLength long_key_request) \<le> unat (reqTotalBodyLength long_key_request)"
    by (simp add: long_key_request_def)
  note 5 = long_key_readBody
  note spec = SetHandler_long_key_no_response [OF 1 2 3 4 5, of 0 store0]
  have d: "fst (set_dispatch long_key_request (set_key long_key_request long_key_body)
              (set_candidate long_key_request long_key_body 0) store0) = Failure 0x0001"
    by (simp add: set_dispatch_def set_or_replace_def long_key_request_def store0_def)
  have p: "SetHandler long_key_request long_key_ctx 0 store0 = Some (Inl Panic, store0)"
    by (rule spec [THEN conjunct1])
  have r: "set_response long_key_request (Failure 0x0001) \<noteq> []"
    using d by (rule spec [THEN conjunct2, rule_format])
  show ?thesis using long_key_parsed 1 2 3 4 5 p d r by (intro conjI)
qed

end
